theory Spec2Isabelle
  imports Main "HOL-Library.Word" "HOL-Library.Log_Nat"
begin

section \<open>Strings of the script\<close>

text \<open>
  A string of the script is a sequence of UTF-16 code units; its \<open>length\<close> counts code
  units. A literal of the source that is plain ASCII is written \<open>js ''...''\<close>; a literal
  with other characters lists their code units.
\<close>

type_synonym jschar = "16 word"
type_synonym jsstring = "jschar list"

definition js :: "string \<Rightarrow> jsstring" where
  "js s = map of_char s"

text \<open>
  The characters that \<open>String.prototype.trim\<close> strips and that the class \<open>\s\<close> of a
  regular expression matches: white space and line terminators.
\<close>

definition isSpace :: "jschar \<Rightarrow> bool" where
  "isSpace c \<longleftrightarrow>
     c = 0x09 \<or> c = 0x0A \<or> c = 0x0B \<or> c = 0x0C \<or> c = 0x0D \<or> c = 0x20 \<or> c = 0xA0 \<or>
     c = 0x1680 \<or> (0x2000 \<le> c \<and> c \<le> 0x200A) \<or> c = 0x2028 \<or> c = 0x2029 \<or>
     c = 0x202F \<or> c = 0x205F \<or> c = 0x3000 \<or> c = 0xFEFF"

definition trim :: "jsstring \<Rightarrow> jsstring" where
  "trim s = rev (dropWhile isSpace (rev (dropWhile isSpace s)))"

subsection \<open>Decimal rendering of an integer\<close>

function dec_digits :: "nat \<Rightarrow> jsstring" where
  "dec_digits n = (if n < 10 then [of_nat (48 + n)]
                   else dec_digits (n div 10) @ [of_nat (48 + n mod 10)])"
  by pat_completeness auto
termination
  by (relation "measure id") auto

definition number_to_string :: "int \<Rightarrow> jsstring" where
  "number_to_string i = (if i < 0 then 0x2D # dec_digits (nat (- i)) else dec_digits (nat i))"

section \<open>The regular expression of the form\<close>

text \<open>
  The only regular expression of the script is \<open>/^[^\s@]+@[^\s@]+\.[^\s@]+$/\<close>: between
  the anchors, a sequence of terms, each an atom or an atom under \<open>+\<close>. An atom is a
  literal character or a negated class. \<open>regex_match\<close> is the backtracking matcher on
  such a sequence, started at index 0 (the anchor \<open>^\<close>) and succeeding only at the end
  of the input (the anchor \<open>$\<close>); \<open>+\<close> is greedy: it tries one more repetition first.
\<close>

datatype class_item = ClassSpace | ClassChar jschar

datatype atom = Lit jschar | NotIn "class_item list"

datatype regex_term = One atom | OneOrMore atom

fun item_matches :: "class_item \<Rightarrow> jschar \<Rightarrow> bool" where
  "item_matches ClassSpace c = isSpace c"
| "item_matches (ClassChar d) c = (c = d)"

fun atom_matches :: "atom \<Rightarrow> jschar \<Rightarrow> bool" where
  "atom_matches (Lit d) c = (c = d)"
| "atom_matches (NotIn items) c = (\<not> list_ex (\<lambda>i. item_matches i c) items)"

fun regex_match :: "regex_term list \<Rightarrow> jsstring \<Rightarrow> bool" where
  "regex_match [] s = (s = [])"
| "regex_match (One a # ts) [] = False"
| "regex_match (One a # ts) (c # cs) = (atom_matches a c \<and> regex_match ts cs)"
| "regex_match (OneOrMore a # ts) [] = False"
| "regex_match (OneOrMore a # ts) (c # cs) =
     (atom_matches a c \<and> (regex_match (OneOrMore a # ts) cs \<or> regex_match ts cs))"

definition not_space_at :: atom where
  "not_space_at = NotIn [ClassSpace, ClassChar 0x40]"

definition email_pattern :: "regex_term list" where
  "email_pattern =
     [OneOrMore not_space_at, One (Lit 0x40), OneOrMore not_space_at, One (Lit 0x2E),
      OneOrMore not_space_at]"

text \<open>
  The shape of an accepted address in the words of the specification: one or more
  characters that are neither white space nor \<open>@\<close>, an \<open>@\<close>, one or more such characters,
  a dot, one or more such characters.
\<close>

definition plain_char :: "jschar \<Rightarrow> bool" where
  "plain_char c \<longleftrightarrow> \<not> isSpace c \<and> c \<noteq> 0x40"

definition email_shape :: "jsstring \<Rightarrow> bool" where
  "email_shape s \<longleftrightarrow>
     (\<exists>a b c. s = a @ [0x40] @ b @ [0x2E] @ c \<and> a \<noteq> [] \<and> b \<noteq> [] \<and> c \<noteq> [] \<and>
        list_all plain_char a \<and> list_all plain_char b \<and> list_all plain_char c)"

section \<open>Percent-encoding\<close>

text \<open>
  \<open>encodeURIComponent\<close>: a character of the unreserved set is kept; any other code point
  is written as the bytes of its UTF-8 form, each as \<open>%\<close> and two upper-case hexadecimal
  digits. A surrogate code unit that is not part of a pair raises \<open>URIError\<close>.
\<close>

datatype js_error = URIError

definition uri_unreserved :: "jschar \<Rightarrow> bool" where
  "uri_unreserved c \<longleftrightarrow>
     (0x41 \<le> c \<and> c \<le> 0x5A) \<or> (0x61 \<le> c \<and> c \<le> 0x7A) \<or> (0x30 \<le> c \<and> c \<le> 0x39) \<or>
     c = 0x2D \<or> c = 0x5F \<or> c = 0x2E \<or> c = 0x21 \<or> c = 0x7E \<or> c = 0x2A \<or> c = 0x27 \<or>
     c = 0x28 \<or> c = 0x29"

definition high_surrogate :: "jschar \<Rightarrow> bool" where
  "high_surrogate c \<longleftrightarrow> 0xD800 \<le> c \<and> c \<le> 0xDBFF"

definition low_surrogate :: "jschar \<Rightarrow> bool" where
  "low_surrogate c \<longleftrightarrow> 0xDC00 \<le> c \<and> c \<le> 0xDFFF"

definition pair_code_point :: "jschar \<Rightarrow> jschar \<Rightarrow> nat" where
  "pair_code_point hi lo = 0x10000 + (unat hi - 0xD800) * 0x400 + (unat lo - 0xDC00)"

definition utf8 :: "nat \<Rightarrow> nat list" where
  "utf8 cp =
     (if cp < 0x80 then [cp]
      else if cp < 0x800 then [0xC0 + cp div 0x40, 0x80 + cp mod 0x40]
      else if cp < 0x10000 then
        [0xE0 + cp div 0x1000, 0x80 + (cp div 0x40) mod 0x40, 0x80 + cp mod 0x40]
      else
        [0xF0 + cp div 0x40000, 0x80 + (cp div 0x1000) mod 0x40,
         0x80 + (cp div 0x40) mod 0x40, 0x80 + cp mod 0x40])"

definition hex_digit :: "nat \<Rightarrow> jschar" where
  "hex_digit d = (if d < 10 then of_nat (48 + d) else of_nat (55 + d))"

definition percent_byte :: "nat \<Rightarrow> jsstring" where
  "percent_byte b = [0x25, hex_digit (b div 16), hex_digit (b mod 16)]"

definition percent_code_point :: "nat \<Rightarrow> jsstring" where
  "percent_code_point cp = concat (map percent_byte (utf8 cp))"

fun prepend :: "jsstring \<Rightarrow> js_error + jsstring \<Rightarrow> js_error + jsstring" where
  "prepend x (Inl e) = Inl e"
| "prepend x (Inr y) = Inr (x @ y)"

fun encodeURIComponent :: "jsstring \<Rightarrow> js_error + jsstring" where
  "encodeURIComponent [] = Inr []"
| "encodeURIComponent (c # cs) =
     (if uri_unreserved c then prepend [c] (encodeURIComponent cs)
      else if low_surrogate c then Inl URIError
      else if \<not> high_surrogate c then
        prepend (percent_code_point (unat c)) (encodeURIComponent cs)
      else (case cs of
              [] \<Rightarrow> Inl URIError
            | d # ds \<Rightarrow>
                if low_surrogate d then
                  prepend (percent_code_point (pair_code_point c d)) (encodeURIComponent ds)
                else Inl URIError))"

text \<open>A string is well formed when every surrogate code unit belongs to a pair.\<close>

fun well_formed :: "jsstring \<Rightarrow> bool" where
  "well_formed [] = True"
| "well_formed (c # cs) =
     (if low_surrogate c then False
      else if \<not> high_surrogate c then well_formed cs
      else (case cs of [] \<Rightarrow> False | d # ds \<Rightarrow> low_surrogate d \<and> well_formed ds))"

section \<open>The class attribute as a token list\<close>

text \<open>
  \<open>classList\<close> is the ordered set of the tokens of the \<open>class\<close> attribute, split at
  ASCII white space. \<open>add\<close>, \<open>remove\<close> and \<open>toggle\<close> change the set and write its
  serialisation (the tokens joined by one space) back to the attribute.
\<close>

definition ascii_whitespace :: "jschar \<Rightarrow> bool" where
  "ascii_whitespace c \<longleftrightarrow> c = 0x09 \<or> c = 0x0A \<or> c = 0x0C \<or> c = 0x0D \<or> c = 0x20"

fun split_tokens :: "jsstring \<Rightarrow> jsstring \<Rightarrow> jsstring list" where
  "split_tokens cur [] = (if cur = [] then [] else [cur])"
| "split_tokens cur (c # cs) =
     (if ascii_whitespace c
      then (if cur = [] then split_tokens [] cs else cur # split_tokens [] cs)
      else split_tokens (cur @ [c]) cs)"

definition set_append :: "'a list \<Rightarrow> 'a \<Rightarrow> 'a list" where
  "set_append ts t = (if t \<in> set ts then ts else ts @ [t])"

definition tokens :: "jsstring \<Rightarrow> jsstring list" where
  "tokens cn = foldl set_append [] (split_tokens [] cn)"

fun serialize :: "jsstring list \<Rightarrow> jsstring" where
  "serialize [] = []"
| "serialize [t] = t"
| "serialize (t # u # ts) = t @ [0x20] @ serialize (u # ts)"

text \<open>A token is a non-empty string without ASCII white space.\<close>

definition valid_token :: "jsstring \<Rightarrow> bool" where
  "valid_token t \<longleftrightarrow> t \<noteq> [] \<and> \<not> list_ex ascii_whitespace t"

definition classList_contains :: "jsstring \<Rightarrow> jsstring \<Rightarrow> bool" where
  "classList_contains t cn \<longleftrightarrow> t \<in> set (tokens cn)"

definition classList_add :: "jsstring \<Rightarrow> jsstring \<Rightarrow> jsstring" where
  "classList_add t cn = serialize (set_append (tokens cn) t)"

definition classList_remove :: "jsstring \<Rightarrow> jsstring \<Rightarrow> jsstring" where
  "classList_remove t cn = serialize (filter (\<lambda>u. u \<noteq> t) (tokens cn))"

definition classList_toggle :: "jsstring \<Rightarrow> jsstring \<Rightarrow> bool \<times> jsstring" where
  "classList_toggle t cn =
     (if t \<in> set (tokens cn) then (False, classList_remove t cn)
      else (True, classList_add t cn))"

section \<open>Numbers\<close>

text \<open>
  A number of the script is an IEEE 754 binary64 value; the finite ones are rationals.
  \<open>fl64\<close> rounds a rational to the nearest such value, ties to the even significand
  (overflow to infinity is left out: no quantity of the script comes near it).
\<close>

definition pow2 :: "int \<Rightarrow> rat" where
  "pow2 e = (if 0 \<le> e then 2 ^ nat e else 1 / 2 ^ nat (- e))"

definition binary_exponent :: "rat \<Rightarrow> int" where
  "binary_exponent x =
     (let (p, q) = quotient_of \<bar>x\<bar>; e = bitlen p - bitlen q
      in if pow2 e \<le> \<bar>x\<bar> then e else e - 1)"

definition quantum :: "rat \<Rightarrow> rat" where
  "quantum x = pow2 (max (binary_exponent x) (- 1022) - 52)"

definition round_ties_even :: "rat \<Rightarrow> int" where
  "round_ties_even y =
     (let f = \<lfloor>y\<rfloor>; r = y - of_int f
      in if r < 1 / 2 then f else if 1 / 2 < r then f + 1 else if even f then f else f + 1)"

definition fl64 :: "rat \<Rightarrow> rat" where
  "fl64 x = (if x = 0 then 0 else of_int (round_ties_even (x / quantum x)) * quantum x)"

definition is_double :: "rat \<Rightarrow> bool" where
  "is_double x \<longleftrightarrow> fl64 x = x"

definition js_mul :: "rat \<Rightarrow> rat \<Rightarrow> rat" where
  "js_mul a b = fl64 (a * b)"

text \<open>\<open>Math.round\<close>: the nearest integer, a tie going towards plus infinity.\<close>

definition Math_round :: "rat \<Rightarrow> int" where
  "Math_round x = \<lfloor>x + 1 / 2\<rfloor>"

definition Math_max :: "int \<Rightarrow> int \<Rightarrow> int" where
  "Math_max a b = (if a < b then b else a)"

definition Math_min :: "int \<Rightarrow> int \<Rightarrow> int" where
  "Math_min a b = (if b < a then b else a)"

section \<open>The page\<close>

text \<open>
  The elements the script looks up by id or through the form, the document and the
  window, and any further element of the page, by a number. The script assumes that the
  elements it looks up by id exist (it would stop at its first use of a missing one); the
  cursor overlay alone is looked up defensively.
\<close>

datatype elem =
    Document | Window | Body | ThemeToggle | MobileNavToggle | Nav | YearEl | Form
  | Feedback | ResetBtn | SubmitBtn | Cursor | CursorDot | CursorRing
  | NameField | EmailField | MessageField | Node nat

datatype event_type =
    Click | MouseMove | MouseLeave | PointerEnter | PointerLeave | Focus | Blur | Submit
  | KeyDown

text \<open>The listener functions of the source, by the place where each is registered.\<close>

datatype handler =
    HThemeToggle | HNavToggle | HSmoothScroll | HTiltMove | HTiltLeave | HCursorMove
  | HCursorEnter | HCursorLeave | HCursorHide | HCursorShow | HClearRingPulse | HSubmit
  | HReset | HEscape

text \<open>
  The functions handed to \<open>setInterval\<close> and \<open>setTimeout\<close>; the second one closes over
  the trimmed field values of its submission.
\<close>

datatype callback = RingPulse | SubmitDone jsstring jsstring jsstring

datatype timer = Timeout nat callback | Interval nat callback

record io_observer =
  io_threshold :: rat
  io_targets :: "elem list"

text \<open>
  The state the modelled handlers read and write. Inline styles that only the pointer
  handlers write (transforms, the opacity of the ring) and the navigation panel are not
  part of it, so the handlers that touch nothing else leave it as it is.
  \<open>storage_log\<close> lists the calls of \<open>localStorage.setItem\<close>, \<open>navigations\<close> the
  assignments to \<open>window.location.href\<close>, \<open>ring_animations\<close> counts the calls of
  \<open>cursorRing.animate\<close>, \<open>uncaught\<close> lists the exceptions that left a callback.
\<close>

record page =
  className :: "elem \<Rightarrow> jsstring"
  storage :: "jsstring \<rightharpoonup> jsstring"
  storage_log :: "(jsstring \<times> jsstring) list"
  aria_pressed :: "jsstring option"
  theme_glyph :: jsstring
  year_text :: jsstring
  transitionDelay :: "elem \<Rightarrow> jsstring"
  observer :: "io_observer option"
  listeners :: "(elem \<times> event_type \<times> handler) list"
  timers :: "nat \<rightharpoonup> timer"
  next_timer :: nat
  ringAnim :: "nat option"
  ring_animations :: nat
  cursor_display :: jsstring
  cursor_opacity :: jsstring
  name_value :: jsstring
  email_value :: jsstring
  message_value :: jsstring
  name_default :: jsstring
  email_default :: jsstring
  message_default :: jsstring
  feedback :: jsstring
  focused :: "elem option"
  submit_disabled :: bool
  submit_label :: jsstring
  navigations :: "jsstring list"
  uncaught :: "js_error list"

text \<open>
  What the script reads from its environment when it starts: the media query, the touch
  capability, whether the overlay exists, the results of its \<open>querySelectorAll\<close> calls,
  the top of each bounding rectangle, the height of the viewport and the year.
\<close>

record env =
  prefersReduced :: bool
  ontouchstart :: bool
  maxTouchPoints :: nat
  cursor_present :: bool
  anchor_els :: "elem list"
  reveal_els :: "elem list"
  tilt_els :: "elem list"
  interactive_els :: "elem list"
  input_els :: "elem list"
  rect_top :: "elem \<Rightarrow> rat"
  innerHeight :: int
  full_year :: int

subsection \<open>Platform operations\<close>

definition addEventListener :: "elem \<Rightarrow> event_type \<Rightarrow> handler \<Rightarrow> page \<Rightarrow> page" where
  "addEventListener t e h s = s\<lparr>listeners := listeners s @ [(t, e, h)]\<rparr>"

definition handlers_for :: "elem \<Rightarrow> event_type \<Rightarrow> page \<Rightarrow> handler list" where
  "handlers_for t e s = map (\<lambda>l. snd (snd l)) (filter (\<lambda>l. fst l = t \<and> fst (snd l) = e) (listeners s))"

definition setInterval :: "callback \<Rightarrow> nat \<Rightarrow> page \<Rightarrow> nat \<times> page" where
  "setInterval cb ms s =
     (next_timer s,
      s\<lparr>timers := (timers s)(next_timer s \<mapsto> Interval ms cb), next_timer := next_timer s + 1\<rparr>)"

definition setTimeout :: "callback \<Rightarrow> nat \<Rightarrow> page \<Rightarrow> nat \<times> page" where
  "setTimeout cb ms s =
     (next_timer s,
      s\<lparr>timers := (timers s)(next_timer s \<mapsto> Timeout ms cb), next_timer := next_timer s + 1\<rparr>)"

text \<open>\<open>clearInterval\<close> of a variable that was never assigned does nothing.\<close>

definition clearInterval :: "nat option \<Rightarrow> page \<Rightarrow> page" where
  "clearInterval h s = (case h of None \<Rightarrow> s | Some i \<Rightarrow> s\<lparr>timers := (timers s)(i := None)\<rparr>)"

definition add_class :: "elem \<Rightarrow> jsstring \<Rightarrow> page \<Rightarrow> page" where
  "add_class el t s = s\<lparr>className := (className s)(el := classList_add t (className s el))\<rparr>"

definition revealed :: "elem \<Rightarrow> page \<Rightarrow> bool" where
  "revealed el s \<longleftrightarrow> classList_contains (js ''revealed'') (className s el)"

text \<open>
  \<open>el.focus()\<close> moves the focus and runs, before it returns, the \<open>blur\<close> listeners of the
  element that loses the focus and the \<open>focus\<close> listeners of the one that gains it. The
  only listeners the script registers for these two events on elements are the two of
  the cursor overlay.
\<close>

fun run_focus_listener :: "page \<Rightarrow> handler \<Rightarrow> page" where
  "run_focus_listener s HCursorHide = s\<lparr>cursor_opacity := js ''0''\<rparr>"
| "run_focus_listener s HCursorShow = s\<lparr>cursor_opacity := js ''1''\<rparr>"
| "run_focus_listener s _ = s"

definition focus_element :: "elem \<Rightarrow> page \<Rightarrow> page" where
  "focus_element el s =
     (if focused s = Some el then s
      else
        let s1 = (case focused s of
                    None \<Rightarrow> s
                  | Some old \<Rightarrow> foldl run_focus_listener s (handlers_for old Blur s));
            s2 = s1\<lparr>focused := Some el\<rparr>
        in foldl run_focus_listener s2 (handlers_for el Focus s2))"

section \<open>Theme toggle with persistence\<close>

definition site_theme :: jsstring where
  "site_theme = js ''site-theme''"

definition theme_dark :: jsstring where
  "theme_dark = js ''theme-dark''"

definition theme_light :: jsstring where
  "theme_light = js ''theme-light''"

text \<open>The two glyphs of the toggle: a sun (U+2600 U+FE0F) and a crescent moon (U+1F319).\<close>

definition glyph_sun :: jsstring where
  "glyph_sun = [0x2600, 0xFE0F]"

definition glyph_moon :: jsstring where
  "glyph_moon = [0xD83C, 0xDF19]"

definition bool_string :: "bool \<Rightarrow> jsstring" where
  "bool_string b = (if b then js ''true'' else js ''false'')"

text \<open>
  \<open>localStorage.getItem\<close> gives \<open>null\<close> for a missing key; \<open>null\<close> and the empty string
  are the two values the test \<open>if (storedTheme)\<close> rejects.
\<close>

definition init_theme :: "page \<Rightarrow> page" where
  "init_theme s =
     (case storage s site_theme of
        None \<Rightarrow> s
      | Some storedTheme \<Rightarrow>
          if storedTheme = [] then s
          else s\<lparr>className := (className s)(Body := storedTheme),
                 aria_pressed := Some (bool_string (storedTheme = theme_dark)),
                 theme_glyph := (if storedTheme = theme_dark then glyph_sun else glyph_moon)\<rparr>)"

definition theme_toggle_click :: "page \<Rightarrow> page" where
  "theme_toggle_click s =
     (let (isDark, cn1) = classList_toggle theme_dark (className s Body);
          cn2 = (if \<not> isDark then classList_add theme_light cn1
                 else classList_remove theme_light cn1);
          mode = (if isDark then theme_dark else theme_light)
      in s\<lparr>className := (className s)(Body := cn2),
            aria_pressed := Some (bool_string isDark),
            theme_glyph := (if isDark then glyph_sun else glyph_moon),
            storage := (storage s)(site_theme \<mapsto> mode),
            storage_log := storage_log s @ [(site_theme, mode)]\<rparr>)"

text \<open>
  The two states a toggle leaves behind: the body carries one of the two theme classes
  and the stored value names that class.
\<close>

definition theme_consistent :: "page \<Rightarrow> bool" where
  "theme_consistent s \<longleftrightarrow>
     (classList_contains theme_dark (className s Body) \<and>
      \<not> classList_contains theme_light (className s Body) \<and>
      storage s site_theme = Some theme_dark) \<or>
     (\<not> classList_contains theme_dark (className s Body) \<and>
      classList_contains theme_light (className s Body) \<and>
      storage s site_theme = Some theme_light)"

section \<open>Reveals\<close>

definition reveal_threshold :: rat where
  "reveal_threshold = fl64 (12 / 100)"

text \<open>
  The callback of the observer: each entry is a target and its \<open>isIntersecting\<close> flag,
  as the browser reports them.
\<close>

definition unobserve :: "elem \<Rightarrow> page \<Rightarrow> page" where
  "unobserve el s =
     (case observer s of
        None \<Rightarrow> s
      | Some ob \<Rightarrow> s\<lparr>observer := Some (ob\<lparr>io_targets := filter (\<lambda>t. t \<noteq> el) (io_targets ob)\<rparr>)\<rparr>)"

definition observe :: "elem \<Rightarrow> page \<Rightarrow> page" where
  "observe el s =
     (case observer s of
        None \<Rightarrow> s
      | Some ob \<Rightarrow> s\<lparr>observer := Some (ob\<lparr>io_targets := set_append (io_targets ob) el\<rparr>)\<rparr>)"

text \<open>An element is observed when it is among the targets of the observer.\<close>

definition observed :: "elem \<Rightarrow> page \<Rightarrow> bool" where
  "observed el s \<longleftrightarrow> (case observer s of None \<Rightarrow> False | Some ob \<Rightarrow> el \<in> set (io_targets ob))"

definition reveal_entry :: "page \<Rightarrow> elem \<times> bool \<Rightarrow> page" where
  "reveal_entry s e =
     (if snd e then unobserve (fst e) (add_class (fst e) (js ''revealed'') s) else s)"

definition reveal_callback :: "(elem \<times> bool) list \<Rightarrow> page \<Rightarrow> page" where
  "reveal_callback entries s = foldl reveal_entry s entries"

text \<open>
  The browser's side of \<open>IntersectionObserver\<close>, which the script relies on: when the
  visible fractions of elements change, the callback gets one entry for each reported
  element, and the \<open>isIntersecting\<close> flag of the entry tells whether the visible
  fraction has reached the threshold the observer was created with. Without an
  observer there is nothing to report to.
\<close>

definition browser_entries :: "page \<Rightarrow> (elem \<times> rat) list \<Rightarrow> (elem \<times> bool) list" where
  "browser_entries s reports =
     (case observer s of
        None \<Rightarrow> []
      | Some ob \<Rightarrow> map (\<lambda>r. (fst r, io_threshold ob \<le> snd r)) reports)"

definition stagger_delay :: "rat \<Rightarrow> int" where
  "stagger_delay d = Math_min 300 (Math_max 0 (Math_round (js_mul d (fl64 (12 / 100)))))"

definition stagger :: "env \<Rightarrow> page \<Rightarrow> elem \<Rightarrow> page" where
  "stagger v s el =
     observe el
       (s\<lparr>transitionDelay :=
            (transitionDelay s)(el := number_to_string (stagger_delay (rect_top v el)) @ js ''ms'')\<rparr>)"

definition init_reveal :: "env \<Rightarrow> page \<Rightarrow> page" where
  "init_reveal v s =
     (if \<not> prefersReduced v
      then foldl (stagger v)
             (s\<lparr>observer := Some \<lparr>io_threshold = reveal_threshold, io_targets = []\<rparr>\<rparr>)
             (reveal_els v)
      else foldl (\<lambda>s el. add_class el (js ''revealed'') s) s (reveal_els v))"

text \<open>The last loop of the script: what is already near the top is revealed at once.\<close>

definition reveal_if_visible :: "env \<Rightarrow> page \<Rightarrow> elem \<Rightarrow> page" where
  "reveal_if_visible v s el =
     (if rect_top v el < js_mul (of_int (innerHeight v)) (fl64 (9 / 10))
      then add_class el (js ''revealed'') s else s)"

definition init_visible :: "env \<Rightarrow> page \<Rightarrow> page" where
  "init_visible v s = foldl (reveal_if_visible v) s (reveal_els v)"

section \<open>Tilt and cursor\<close>

definition isTouch :: "env \<Rightarrow> bool" where
  "isTouch v \<longleftrightarrow> ontouchstart v \<or> 0 < maxTouchPoints v"

definition attachTilt :: "page \<Rightarrow> elem \<Rightarrow> page" where
  "attachTilt s el = addEventListener el MouseLeave HTiltLeave (addEventListener el MouseMove HTiltMove s)"

definition init_tilt :: "env \<Rightarrow> page \<Rightarrow> page" where
  "init_tilt v s =
     (if \<not> prefersReduced v \<and> \<not> isTouch v then foldl attachTilt s (tilt_els v) else s)"

definition startRingPulse :: "page \<Rightarrow> page" where
  "startRingPulse s = (let (i, s') = setInterval RingPulse 3200 s in s'\<lparr>ringAnim := Some i\<rparr>)"

definition clear_ring_pulse :: "page \<Rightarrow> page" where
  "clear_ring_pulse s = clearInterval (ringAnim s) s"

definition attach_hover :: "page \<Rightarrow> elem \<Rightarrow> page" where
  "attach_hover s n =
     addEventListener n PointerLeave HCursorLeave (addEventListener n PointerEnter HCursorEnter s)"

definition attach_typing :: "page \<Rightarrow> elem \<Rightarrow> page" where
  "attach_typing s inp =
     addEventListener inp Blur HCursorShow (addEventListener inp Focus HCursorHide s)"

definition init_cursor :: "env \<Rightarrow> page \<Rightarrow> page" where
  "init_cursor v s =
     (if cursor_present v \<and> \<not> isTouch v \<and> \<not> prefersReduced v then
        let s1 = addEventListener Document MouseMove HCursorMove s;
            s2 = foldl attach_hover s1 (interactive_els v);
            s3 = foldl attach_typing s2 (input_els v);
            s4 = startRingPulse s3
        in addEventListener Window Blur HClearRingPulse s4
      else if cursor_present v then s\<lparr>cursor_display := js ''none''\<rparr>
      else s)"

section \<open>Form validation and submission\<close>

definition msg_name :: jsstring where
  "msg_name = js ''Please enter your name (2+ characters).''"

definition msg_email :: jsstring where
  "msg_email = js ''Please enter a valid email address.''"

text \<open>The next two texts hold an em dash, U+2014.\<close>

definition msg_message :: jsstring where
  "msg_message = js ''Message is too short '' @ [0x2014] @ js '' tell us more about your project.''"

definition msg_thanks :: jsstring where
  "msg_thanks =
     js ''Thanks '' @ [0x2014] @
     js '' message prepared. Your email client will open so you can send it (or use your preferred workflow).''"

definition mail_subject :: "jsstring \<Rightarrow> jsstring" where
  "mail_subject name = js ''Website inquiry from '' @ name"

definition mail_body :: "jsstring \<Rightarrow> jsstring \<Rightarrow> jsstring \<Rightarrow> jsstring" where
  "mail_body name email message =
     js ''Name: '' @ name @ [0x0A] @ js ''Email: '' @ email @ [0x0A, 0x0A] @ message"

text \<open>
  The deferred step of an accepted submission. An exception of \<open>encodeURIComponent\<close>
  leaves the callback after the three assignments before it.
\<close>

definition submit_done :: "jsstring \<Rightarrow> jsstring \<Rightarrow> jsstring \<Rightarrow> page \<Rightarrow> page" where
  "submit_done name email message s =
     (let s1 = s\<lparr>submit_disabled := False, submit_label := js ''Send message'',
                 feedback := msg_thanks\<rparr>
      in case encodeURIComponent (mail_subject name) of
           Inl e \<Rightarrow> s1\<lparr>uncaught := uncaught s1 @ [e]\<rparr>
         | Inr subject \<Rightarrow>
             (case encodeURIComponent (mail_body name email message) of
                Inl e \<Rightarrow> s1\<lparr>uncaught := uncaught s1 @ [e]\<rparr>
              | Inr body \<Rightarrow>
                  s1\<lparr>navigations := navigations s1 @
                       [js ''mailto:hello@aurora.example?subject='' @ subject @ js ''&body='' @ body]\<rparr>))"

definition submit_handler :: "page \<Rightarrow> page" where
  "submit_handler s =
     (let s0 = s\<lparr>feedback := []\<rparr>;
          name = trim (name_value s);
          email = trim (email_value s);
          message = trim (message_value s)
      in if length name < 2 then focus_element NameField (s0\<lparr>feedback := msg_name\<rparr>)
         else if \<not> regex_match email_pattern email
           then focus_element EmailField (s0\<lparr>feedback := msg_email\<rparr>)
         else if length message < 10
           then focus_element MessageField (s0\<lparr>feedback := msg_message\<rparr>)
         else snd (setTimeout (SubmitDone name email message) 900
                (s0\<lparr>submit_disabled := True, submit_label := js ''Sending...''\<rparr>)))"

definition reset_click :: "page \<Rightarrow> page" where
  "reset_click s =
     focus_element NameField
       (s\<lparr>name_value := name_default s, email_value := email_default s,
          message_value := message_default s, feedback := []\<rparr>)"

section \<open>The script and the events after it\<close>

definition startup :: "env \<Rightarrow> page \<Rightarrow> page" where
  "startup v s =
     (let s1 = s\<lparr>year_text := number_to_string (full_year v)\<rparr>;
          s2 = init_theme s1;
          s3 = addEventListener ThemeToggle Click HThemeToggle s2;
          s4 = addEventListener MobileNavToggle Click HNavToggle s3;
          s5 = foldl (\<lambda>s a. addEventListener a Click HSmoothScroll s) s4 (anchor_els v);
          s6 = init_reveal v s5;
          s7 = init_tilt v s6;
          s8 = init_cursor v s7;
          s9 = addEventListener Form Submit HSubmit s8;
          s10 = addEventListener ResetBtn Click HReset s9;
          s11 = addEventListener Document KeyDown HEscape s10
      in init_visible v s11)"

text \<open>
  A listener that writes only outside the modelled state leaves the state as it is.
\<close>

fun run_handler :: "page \<Rightarrow> handler \<Rightarrow> page" where
  "run_handler s HThemeToggle = theme_toggle_click s"
| "run_handler s HSubmit = submit_handler s"
| "run_handler s HReset = reset_click s"
| "run_handler s HClearRingPulse = clear_ring_pulse s"
| "run_handler s HCursorHide = s\<lparr>cursor_opacity := js ''0''\<rparr>"
| "run_handler s HCursorShow = s\<lparr>cursor_opacity := js ''1''\<rparr>"
| "run_handler s _ = s"

definition dispatch :: "elem \<Rightarrow> event_type \<Rightarrow> page \<Rightarrow> page" where
  "dispatch t e s = foldl run_handler s (handlers_for t e s)"

fun run_callback :: "callback \<Rightarrow> page \<Rightarrow> page" where
  "run_callback RingPulse s = s\<lparr>ring_animations := ring_animations s + 1\<rparr>"
| "run_callback (SubmitDone name email message) s = submit_done name email message s"

text \<open>A timer that comes due: a timeout leaves the table before its callback runs.\<close>

definition fire :: "nat \<Rightarrow> page \<Rightarrow> page" where
  "fire i s =
     (case timers s i of
        None \<Rightarrow> s
      | Some (Timeout ms cb) \<Rightarrow> run_callback cb (s\<lparr>timers := (timers s)(i := None)\<rparr>)
      | Some (Interval ms cb) \<Rightarrow> run_callback cb s)"

text \<open>
  What the browser does to the page after the script has run: it dispatches an event,
  lets a timer come due, or reports intersection changes of observed targets.
\<close>

datatype input = Dispatch elem event_type | Fire nat | Intersect "(elem \<times> bool) list"

fun step :: "page \<Rightarrow> input \<Rightarrow> page" where
  "step s (Dispatch t e) = dispatch t e s"
| "step s (Fire i) = fire i s"
| "step s (Intersect entries) =
     (case observer s of
        None \<Rightarrow> s
      | Some ob \<Rightarrow> reveal_callback (filter (\<lambda>e. fst e \<in> set (io_targets ob)) entries) s)"

definition run :: "input list \<Rightarrow> page \<Rightarrow> page" where
  "run ins s = foldl step s ins"

section \<open>The pulse of the ring\<close>

text \<open>
  A timer of the table plays the pulse when its callback is the pulse animation; the
  pulse is pending when some timer of the table does. The pulse runs under the handle
  \<open>i\<close> when the recurring timer with the period of 3200 ms is in the table at \<open>i\<close>,
  the variable \<open>ringAnim\<close> holds \<open>i\<close>, and no other timer plays the pulse.
\<close>

definition pulse_timer :: "timer option \<Rightarrow> bool" where
  "pulse_timer t \<longleftrightarrow>
     (case t of
        Some (Interval ms RingPulse) \<Rightarrow> True
      | Some (Timeout ms RingPulse) \<Rightarrow> True
      | _ \<Rightarrow> False)"

definition pulse_pending :: "page \<Rightarrow> bool" where
  "pulse_pending s \<longleftrightarrow> (\<exists>i. pulse_timer (timers s i))"

definition pulse_running :: "nat \<Rightarrow> page \<Rightarrow> bool" where
  "pulse_running i s \<longleftrightarrow>
     timers s i = Some (Interval 3200 RingPulse) \<and> i < next_timer s \<and> ringAnim s = Some i \<and>
     (\<forall>j. j \<noteq> i \<longrightarrow> \<not> pulse_timer (timers s j))"

section \<open>Sample pages\<close>

text \<open>
  A page on a first visit, with nothing stored, no class on any element and empty
  fields, and the same page with the submission of the specification's example typed in.
\<close>

definition fresh_page :: page where
  "fresh_page =
     \<lparr>className = (\<lambda>_. []), storage = Map.empty, storage_log = [], aria_pressed = None,
      theme_glyph = [], year_text = [], transitionDelay = (\<lambda>_. []), observer = None,
      listeners = [], timers = Map.empty, next_timer = 1, ringAnim = None,
      ring_animations = 0, cursor_display = [], cursor_opacity = [], name_value = [],
      email_value = [], message_value = [], name_default = [], email_default = [],
      message_default = [], feedback = [], focused = None, submit_disabled = False,
      submit_label = js ''Send message'', navigations = [], uncaught = []\<rparr>"

definition jane_page :: page where
  "jane_page =
     fresh_page\<lparr>name_value := js ''Jane Doe'', email_value := js ''jane@example.com'',
       message_value := js ''I would like a quote for a new site''\<rparr>"

text \<open>
  The same submission with a name that ends in the first half of a surrogate pair (an
  emoji cut in two).
\<close>

definition cut_name_page :: page where
  "cut_name_page = jane_page\<lparr>name_value := js ''Jane '' @ [0xD83D]\<rparr>"

text \<open>
  An environment with motion allowed, a pointer device and the overlay present: two
  reveal candidates, one near the top and one below the fold of a viewport 800 pixels
  high. The same environment with the reduced-motion preference set. A page of a
  returning visitor: the dark theme stored and a layout class on the body.
\<close>

definition sample_env :: env where
  "sample_env =
     \<lparr>prefersReduced = False, ontouchstart = False, maxTouchPoints = 0, cursor_present = True,
      anchor_els = [Node 10], reveal_els = [Node 0, Node 1], tilt_els = [Node 2],
      interactive_els = [ThemeToggle, SubmitBtn], input_els = [NameField, MessageField],
      rect_top = (\<lambda>el. if el = Node 1 then 1000 else 100), innerHeight = 800,
      full_year = 2025\<rparr>"

definition reduced_env :: env where
  "reduced_env = sample_env\<lparr>prefersReduced := True\<rparr>"

definition returning_page :: page where
  "returning_page =
     fresh_page\<lparr>className := (\<lambda>_. [])(Body := js ''layout''),
       storage := [site_theme \<mapsto> theme_dark]\<rparr>"

text \<open>
  The page after the script has run with the overlay enabled, with a one-letter name
  typed in; and an environment whose candidates sit at a fractional distance from the
  top, the double nearest to 70.83333333333333.
\<close>

definition typing_page :: page where
  "typing_page = startup sample_env (jane_page\<lparr>name_value := js ''J''\<rparr>)"

definition tie_env :: env where
  "tie_env = sample_env\<lparr>rect_top := (\<lambda>el. 4984452712584533 / 2 ^ 46)\<rparr>"

section \<open>Properties of the regular expression\<close>

lemma atom_not_space_at: "atom_matches not_space_at c = plain_char c"
  by (simp add: not_space_at_def plain_char_def)

lemma regex_match_One:
  "regex_match (One a # ts) s \<longleftrightarrow> (\<exists>c r. s = c # r \<and> atom_matches a c \<and> regex_match ts r)"
  by (cases s) auto

lemma regex_match_OneOrMore:
  "regex_match (OneOrMore a # ts) s \<longleftrightarrow>
     (\<exists>u r. s = u @ r \<and> u \<noteq> [] \<and> list_all (atom_matches a) u \<and> regex_match ts r)"
proof (induction s)
  case Nil
  then show ?case by simp
next
  case (Cons c cs)
  show ?case
  proof
    assume "regex_match (OneOrMore a # ts) (c # cs)"
    then have c: "atom_matches a c"
      and d: "regex_match (OneOrMore a # ts) cs \<or> regex_match ts cs" by auto
    from d show "\<exists>u r. c # cs = u @ r \<and> u \<noteq> [] \<and> list_all (atom_matches a) u \<and> regex_match ts r"
    proof
      assume "regex_match (OneOrMore a # ts) cs"
      with Cons.IH obtain u r where "cs = u @ r" "list_all (atom_matches a) u" "regex_match ts r"
        by blast
      with c have "c # cs = (c # u) @ r \<and> c # u \<noteq> [] \<and> list_all (atom_matches a) (c # u) \<and> regex_match ts r"
        by simp
      then show ?thesis by blast
    next
      assume "regex_match ts cs"
      with c have "c # cs = [c] @ cs \<and> [c] \<noteq> [] \<and> list_all (atom_matches a) [c] \<and> regex_match ts cs"
        by simp
      then show ?thesis by blast
    qed
  next
    assume "\<exists>u r. c # cs = u @ r \<and> u \<noteq> [] \<and> list_all (atom_matches a) u \<and> regex_match ts r"
    then obtain u r where u: "c # cs = u @ r" "u \<noteq> []" "list_all (atom_matches a) u" "regex_match ts r"
      by blast
    then obtain u' where u': "u = c # u'" "cs = u' @ r"
      by (cases u) auto
    show "regex_match (OneOrMore a # ts) (c # cs)"
    proof (cases "u' = []")
      case True
      with u u' show ?thesis by simp
    next
      case False
      with u u' have "regex_match (OneOrMore a # ts) cs"
        using Cons.IH by auto
      with u u' show ?thesis by simp
    qed
  qed
qed

text \<open>The matcher accepts exactly the strings of the shape the specification words.\<close>

lemma email_pattern_shape: "regex_match email_pattern s \<longleftrightarrow> email_shape s"
proof
  assume "regex_match email_pattern s"
  then obtain a r1 where 1: "s = a @ r1" "a \<noteq> []" "list_all plain_char a"
      "regex_match [One (Lit 0x40), OneOrMore not_space_at, One (Lit 0x2E), OneOrMore not_space_at] r1"
    unfolding email_pattern_def regex_match_OneOrMore [of not_space_at] atom_not_space_at by blast
  from 1(4) obtain r2 where 2: "r1 = 0x40 # r2"
      "regex_match [OneOrMore not_space_at, One (Lit 0x2E), OneOrMore not_space_at] r2"
    unfolding regex_match_One by auto
  from 2(2) obtain b r3 where 3: "r2 = b @ r3" "b \<noteq> []" "list_all plain_char b"
      "regex_match [One (Lit 0x2E), OneOrMore not_space_at] r3"
    unfolding regex_match_OneOrMore [of not_space_at] atom_not_space_at by blast
  from 3(4) obtain r4 where 4: "r3 = 0x2E # r4" "regex_match [OneOrMore not_space_at] r4"
    unfolding regex_match_One by auto
  from 4(2) have 5: "r4 \<noteq> []" "list_all plain_char r4"
    unfolding regex_match_OneOrMore [of not_space_at] atom_not_space_at by auto
  have "s = a @ [0x40] @ b @ [0x2E] @ r4"
    using 1 2 3 4 by simp
  with 1 3 5 show "email_shape s"
    unfolding email_shape_def by blast
next
  assume "email_shape s"
  then obtain a b c where s: "s = a @ [0x40] @ b @ [0x2E] @ c" "a \<noteq> []" "b \<noteq> []" "c \<noteq> []"
      "list_all plain_char a" "list_all plain_char b" "list_all plain_char c"
    unfolding email_shape_def by blast
  have 5: "regex_match [OneOrMore not_space_at] c"
    unfolding regex_match_OneOrMore [of not_space_at] atom_not_space_at using s by auto
  then have 4: "regex_match [One (Lit 0x2E), OneOrMore not_space_at] (0x2E # c)"
    by simp
  have 3: "regex_match [OneOrMore not_space_at, One (Lit 0x2E), OneOrMore not_space_at] (b @ 0x2E # c)"
    unfolding regex_match_OneOrMore [of not_space_at "[One (Lit 0x2E), OneOrMore not_space_at]"] atom_not_space_at
    using s 4 by blast
  then have 2: "regex_match [One (Lit 0x40), OneOrMore not_space_at, One (Lit 0x2E), OneOrMore not_space_at]
       (0x40 # b @ 0x2E # c)"
    by simp
  have "regex_match email_pattern (a @ 0x40 # b @ 0x2E # c)"
    unfolding email_pattern_def
      regex_match_OneOrMore [of not_space_at "[One (Lit 0x40), OneOrMore not_space_at, One (Lit 0x2E), OneOrMore not_space_at]"]
      atom_not_space_at
    using s 2 by blast
  then show "regex_match email_pattern s"
    using s by simp
qed

section \<open>Properties of moving the focus\<close>

lemma foldl_focus_listener:
  "\<exists>op. foldl run_focus_listener s hs = s\<lparr>cursor_opacity := op\<rparr>"
proof (induction hs arbitrary: s)
  case Nil
  have "s = s\<lparr>cursor_opacity := cursor_opacity s\<rparr>" by simp
  then show ?case by (metis foldl_Nil)
next
  case (Cons h hs)
  have "run_focus_listener s h = s\<lparr>cursor_opacity := cursor_opacity (run_focus_listener s h)\<rparr>"
    by (cases h) simp_all
  then obtain op1 where 1: "run_focus_listener s h = s\<lparr>cursor_opacity := op1\<rparr>" ..
  from Cons [of "s\<lparr>cursor_opacity := op1\<rparr>"] obtain op2
    where "foldl run_focus_listener (s\<lparr>cursor_opacity := op1\<rparr>) hs = s\<lparr>cursor_opacity := op2\<rparr>"
    by auto
  with 1 show ?case by auto
qed

text \<open>Moving the focus changes the focused element and, at most, the overlay's opacity.\<close>

lemma focus_element_frame:
  "\<exists>op. focus_element el s = s\<lparr>focused := Some el, cursor_opacity := op\<rparr>"
proof (cases "focused s = Some el")
  case True
  then have "focus_element el s = s\<lparr>focused := Some el, cursor_opacity := cursor_opacity s\<rparr>"
    by (simp add: focus_element_def)
  then show ?thesis ..
next
  case False
  define s1 where "s1 = (case focused s of None \<Rightarrow> s
     | Some old \<Rightarrow> foldl run_focus_listener s (handlers_for old Blur s))"
  obtain op1 where 1: "s1 = s\<lparr>cursor_opacity := op1\<rparr>"
  proof (cases "focused s")
    case None
    then have "s1 = s\<lparr>cursor_opacity := cursor_opacity s\<rparr>" by (simp add: s1_def)
    then show ?thesis by (rule that)
  next
    case (Some old)
    then show ?thesis
      using foldl_focus_listener [of s "handlers_for old Blur s"] that by (auto simp: s1_def)
  qed
  obtain op2 where "foldl run_focus_listener (s1\<lparr>focused := Some el\<rparr>)
       (handlers_for el Focus (s1\<lparr>focused := Some el\<rparr>)) = s1\<lparr>focused := Some el, cursor_opacity := op2\<rparr>"
    using foldl_focus_listener by blast
  with False 1 have "focus_element el s = s\<lparr>focused := Some el, cursor_opacity := op2\<rparr>"
    by (simp add: focus_element_def Let_def s1_def [symmetric])
  then show ?thesis ..
qed

section \<open>Form validation\<close>

text \<open>
  C1. Every submission runs the three checks in the order name, email, message, and the
  first failure decides: a trimmed name of fewer than two code units is rejected with
  the name text and the focus on the name field, whatever the other fields hold;
  otherwise a trimmed email that the regular expression does not match is rejected with
  the email text and the focus on the email field, whatever the message holds; otherwise
  a trimmed message of fewer than ten code units is rejected with the message text and
  the focus on the message field. The regular expression matches exactly the strings of
  the shape the specification words.
\<close>

theorem validation_order:
  "(length (trim (name_value s)) < 2 \<longrightarrow>
      feedback (submit_handler s) = js ''Please enter your name (2+ characters).'' \<and>
      focused (submit_handler s) = Some NameField) \<and>
   (2 \<le> length (trim (name_value s)) \<and>
    \<not> regex_match email_pattern (trim (email_value s)) \<longrightarrow>
      feedback (submit_handler s) = js ''Please enter a valid email address.'' \<and>
      focused (submit_handler s) = Some EmailField) \<and>
   (2 \<le> length (trim (name_value s)) \<and> regex_match email_pattern (trim (email_value s)) \<and>
    length (trim (message_value s)) < 10 \<longrightarrow>
      feedback (submit_handler s) =
        js ''Message is too short '' @ [0x2014] @ js '' tell us more about your project.'' \<and>
      focused (submit_handler s) = Some MessageField) \<and>
   (regex_match email_pattern (trim (email_value s)) \<longleftrightarrow> email_shape (trim (email_value s)))"
proof -
  have f: "feedback (focus_element el p) = feedback p \<and> focused (focus_element el p) = Some el"
    for el p
    using focus_element_frame [of el p] by auto
  show ?thesis
    by (simp add: submit_handler_def Let_def email_pattern_shape f msg_name_def msg_email_def
        msg_message_def)
qed

theorem validation_order_witness:
  "feedback (submit_handler (jane_page\<lparr>name_value := js '' J ''\<rparr>)) =
     js ''Please enter your name (2+ characters).'' \<and>
   focused (submit_handler (jane_page\<lparr>name_value := js '' J ''\<rparr>)) = Some NameField \<and>
   feedback (submit_handler (jane_page\<lparr>email_value := js ''a@b''\<rparr>)) =
     js ''Please enter a valid email address.'' \<and>
   focused (submit_handler (jane_page\<lparr>email_value := js ''a@b''\<rparr>)) = Some EmailField \<and>
   feedback (submit_handler (jane_page\<lparr>message_value := js ''Too short''\<rparr>)) =
     js ''Message is too short '' @ [0x2014] @ js '' tell us more about your project.'' \<and>
   focused (submit_handler (jane_page\<lparr>message_value := js ''Too short''\<rparr>)) = Some MessageField"
proof -
  have 1: "length (trim (name_value (jane_page\<lparr>name_value := js '' J ''\<rparr>))) < 2"
    by code_simp
  have 2: "2 \<le> length (trim (name_value (jane_page\<lparr>email_value := js ''a@b''\<rparr>)))"
    "\<not> regex_match email_pattern (trim (email_value (jane_page\<lparr>email_value := js ''a@b''\<rparr>)))"
    by code_simp+
  have 3: "2 \<le> length (trim (name_value (jane_page\<lparr>message_value := js ''Too short''\<rparr>)))"
    "regex_match email_pattern
       (trim (email_value (jane_page\<lparr>message_value := js ''Too short''\<rparr>)))"
    "length (trim (message_value (jane_page\<lparr>message_value := js ''Too short''\<rparr>))) < 10"
    by code_simp+
  from 1 validation_order [of "jane_page\<lparr>name_value := js '' J ''\<rparr>"]
  have a: "feedback (submit_handler (jane_page\<lparr>name_value := js '' J ''\<rparr>)) =
      js ''Please enter your name (2+ characters).'' \<and>
      focused (submit_handler (jane_page\<lparr>name_value := js '' J ''\<rparr>)) = Some NameField"
    by blast
  from 2 validation_order [of "jane_page\<lparr>email_value := js ''a@b''\<rparr>"]
  have b: "feedback (submit_handler (jane_page\<lparr>email_value := js ''a@b''\<rparr>)) =
      js ''Please enter a valid email address.'' \<and>
      focused (submit_handler (jane_page\<lparr>email_value := js ''a@b''\<rparr>)) = Some EmailField"
    by blast
  from 3 validation_order [of "jane_page\<lparr>message_value := js ''Too short''\<rparr>"]
  have c: "feedback (submit_handler (jane_page\<lparr>message_value := js ''Too short''\<rparr>)) =
      js ''Message is too short '' @ [0x2014] @ js '' tell us more about your project.'' \<and>
      focused (submit_handler (jane_page\<lparr>message_value := js ''Too short''\<rparr>)) = Some MessageField"
    by blast
  from a b c show ?thesis by blast
qed

section \<open>Properties of percent-encoding\<close>

lemma unreserved_not_surrogate:
  "uri_unreserved c \<Longrightarrow> \<not> low_surrogate c \<and> \<not> high_surrogate c"
  by (auto simp: uri_unreserved_def low_surrogate_def high_surrogate_def word_le_nat_alt)

lemma prepend_Nil: "prepend [] r = r"
  by (cases r) simp_all

lemma prepend_prepend: "prepend x (prepend y r) = prepend (x @ y) r"
  by (cases r) simp_all

lemma prepend_Inr: "prepend x r = Inr y \<Longrightarrow> \<exists>z. r = Inr z"
  by (cases r) simp_all

text \<open>Encoding goes through a concatenation whose first part is well formed.\<close>

lemma enc_append:
  "well_formed a \<Longrightarrow>
     encodeURIComponent (a @ b) =
       (case encodeURIComponent a of
          Inl e \<Rightarrow> Inl e
        | Inr x \<Rightarrow> prepend x (encodeURIComponent b))"
proof (induction a rule: well_formed.induct)
  case 1
  show ?case by (simp add: prepend_Nil)
next
  case (2 c cs)
  show ?case
  proof (cases "high_surrogate c")
    case False
    with 2 show ?thesis
      by (cases "encodeURIComponent cs") (auto split: if_splits simp: prepend_prepend)
  next
    case True
    with 2(3) obtain d ds where cs: "cs = d # ds" "low_surrogate d" "well_formed ds"
      by (cases cs) (auto split: if_splits)
    from True 2(3) have low: "\<not> low_surrogate c"
      by (auto split: if_splits)
    with 2(2) True cs have "encodeURIComponent (ds @ b) =
       (case encodeURIComponent ds of
          Inl e \<Rightarrow> Inl e
        | Inr x \<Rightarrow> prepend x (encodeURIComponent b))"
      by simp
    with True cs low show ?thesis
      by (cases "encodeURIComponent ds") (auto simp: prepend_prepend dest: unreserved_not_surrogate)
  qed
qed

text \<open>Encoding succeeds exactly on the well-formed strings.\<close>

lemma enc_total: "well_formed a \<Longrightarrow> \<exists>x. encodeURIComponent a = Inr x"
proof (induction a rule: well_formed.induct)
  case 1
  show ?case by simp
next
  case (2 c cs)
  show ?case
  proof (cases "high_surrogate c")
    case False
    with 2 show ?thesis
      by (cases "encodeURIComponent cs") (auto split: if_splits)
  next
    case True
    with 2(3) obtain d ds where cs: "cs = d # ds" "low_surrogate d" "well_formed ds"
      by (cases cs) (auto split: if_splits)
    from True 2(3) have low: "\<not> low_surrogate c"
      by (auto split: if_splits)
    with 2(2) True cs obtain x where "encodeURIComponent ds = Inr x"
      by auto
    with True cs low show ?thesis
      by (auto dest: unreserved_not_surrogate)
  qed
qed

lemma enc_well_formed: "encodeURIComponent a = Inr x \<Longrightarrow> well_formed a"
proof (induction a arbitrary: x rule: well_formed.induct)
  case 1
  show ?case by simp
next
  case (2 c cs)
  show ?case
  proof (cases "uri_unreserved c")
    case True
    with 2 show ?thesis
      by (auto dest: unreserved_not_surrogate prepend_Inr)
  next
    case False
    with 2 show ?thesis
      by (cases cs) (auto split: if_splits dest: prepend_Inr)
  qed
qed

lemma wf_literals:
  "well_formed (js ''Website inquiry from '')"
  "well_formed (js ''Name: '')"
  "well_formed (0x0A # js ''Email: '')"
  "well_formed [0x0A, 0x0A]"
  by code_simp+

lemma enc_literals:
  "encodeURIComponent (js ''Website inquiry from '') = Inr (js ''Website%20inquiry%20from%20'')"
  "encodeURIComponent (js ''Name: '') = Inr (js ''Name%3A%20'')"
  "encodeURIComponent (0x0A # js ''Email: '') = Inr (js ''%0AEmail%3A%20'')"
  "encodeURIComponent [0x0A, 0x0A] = Inr (js ''%0A%0A'')"
  by code_simp+

lemma enc_subject:
  assumes "encodeURIComponent name = Inr n"
  shows "encodeURIComponent (mail_subject name) = Inr (js ''Website%20inquiry%20from%20'' @ n)"
  using assms by (simp add: mail_subject_def enc_append wf_literals enc_literals)

lemma enc_body:
  assumes "encodeURIComponent name = Inr n" "encodeURIComponent email = Inr e"
    "encodeURIComponent message = Inr m"
  shows "encodeURIComponent (mail_body name email message) =
           Inr (js ''Name%3A%20'' @ n @ js ''%0AEmail%3A%20'' @ e @ js ''%0A%0A'' @ m)"
proof -
  have wn: "well_formed name" and we: "well_formed email"
    using assms enc_well_formed by blast+
  have 1: "encodeURIComponent ([0x0A, 0x0A] @ message) = Inr (js ''%0A%0A'' @ m)"
    using assms by (simp only: enc_append [OF wf_literals(4)] enc_literals) simp
  have 2: "encodeURIComponent (email @ [0x0A, 0x0A] @ message) = Inr (e @ js ''%0A%0A'' @ m)"
    using assms 1 by (simp only: enc_append [OF we]) simp
  have 3: "encodeURIComponent ((0x0A # js ''Email: '') @ email @ [0x0A, 0x0A] @ message)
             = Inr (js ''%0AEmail%3A%20'' @ e @ js ''%0A%0A'' @ m)"
    using 2 by (simp only: enc_append [OF wf_literals(3)] enc_literals) simp
  have 4: "encodeURIComponent (name @ (0x0A # js ''Email: '') @ email @ [0x0A, 0x0A] @ message)
             = Inr (n @ js ''%0AEmail%3A%20'' @ e @ js ''%0A%0A'' @ m)"
    using assms 3 by (simp only: enc_append [OF wn]) simp
  have 5: "encodeURIComponent
             (js ''Name: '' @ name @ (0x0A # js ''Email: '') @ email @ [0x0A, 0x0A] @ message)
             = Inr (js ''Name%3A%20'' @ n @ js ''%0AEmail%3A%20'' @ e @ js ''%0A%0A'' @ m)"
    using 4 by (simp only: enc_append [OF wf_literals(2)] enc_literals) simp
  then show ?thesis
    by (simp add: mail_body_def)
qed

section \<open>Accepted and rejected submissions\<close>

lemma submit_handler_accepts:
  assumes "2 \<le> length (trim (name_value s))"
    and "regex_match email_pattern (trim (email_value s))"
    and "10 \<le> length (trim (message_value s))"
  shows "submit_handler s =
       s\<lparr>feedback := [], submit_disabled := True, submit_label := js ''Sending...'',
         timers := (timers s)(next_timer s \<mapsto>
           Timeout 900 (SubmitDone (trim (name_value s)) (trim (email_value s))
             (trim (message_value s)))),
         next_timer := next_timer s + 1\<rparr>"
    using assms by (simp add: submit_handler_def Let_def setTimeout_def)

lemma fire_submit_done:
  assumes "encodeURIComponent (mail_subject name) = Inr sj"
    and "encodeURIComponent (mail_body name email message) = Inr bd"
    and "timers p i = Some (Timeout 900 (SubmitDone name email message))"
  shows "fire i p =
           p\<lparr>timers := (timers p)(i := None), submit_disabled := False,
             submit_label := js ''Send message'', feedback := msg_thanks,
             navigations := navigations p @
               [js ''mailto:hello@aurora.example?subject='' @ sj @ js ''&body='' @ bd]\<rparr>"
  using assms by (simp add: fire_def submit_done_def Let_def)

text \<open>
  On fields without unpaired surrogates the accepted path runs to its end. For every
  submission whose three trimmed fields pass validation and hold no unpaired surrogate:
  the handler clears the feedback, disables the submit control, sets its label to
  \<open>Sending...\<close> and schedules one deferred step with a delay of 900 ms, and nothing
  else. When that step runs, in whatever state the page is by then, it leaves the timer
  table, re-enables the control, sets its label to \<open>Send message\<close>, shows the success
  text and navigates to the link \<open>mailto:hello@aurora.example\<close> whose subject is the
  percent-encoding of \<open>Website inquiry from\<close> and the trimmed name and whose body is
  the percent-encoding of the name, email and message lines.
\<close>

theorem accepted_submission:
  assumes "2 \<le> length (trim (name_value s))"
    and "regex_match email_pattern (trim (email_value s))"
    and "10 \<le> length (trim (message_value s))"
    and "well_formed (trim (name_value s))"
    and "well_formed (trim (email_value s))"
    and "well_formed (trim (message_value s))"
  shows "\<exists>n e m subject body.
     encodeURIComponent (trim (name_value s)) = Inr n \<and>
     encodeURIComponent (trim (email_value s)) = Inr e \<and>
     encodeURIComponent (trim (message_value s)) = Inr m \<and>
     encodeURIComponent (mail_subject (trim (name_value s))) = Inr subject \<and>
     subject = js ''Website%20inquiry%20from%20'' @ n \<and>
     encodeURIComponent
       (mail_body (trim (name_value s)) (trim (email_value s)) (trim (message_value s))) =
       Inr body \<and>
     body = js ''Name%3A%20'' @ n @ js ''%0AEmail%3A%20'' @ e @ js ''%0A%0A'' @ m \<and>
     submit_handler s =
       s\<lparr>feedback := [], submit_disabled := True, submit_label := js ''Sending...'',
         timers := (timers s)(next_timer s \<mapsto>
           Timeout 900 (SubmitDone (trim (name_value s)) (trim (email_value s))
             (trim (message_value s)))),
         next_timer := next_timer s + 1\<rparr> \<and>
     (\<forall>p. timers p (next_timer s) =
            Some (Timeout 900 (SubmitDone (trim (name_value s)) (trim (email_value s))
              (trim (message_value s)))) \<longrightarrow>
          fire (next_timer s) p =
            p\<lparr>timers := (timers p)(next_timer s := None), submit_disabled := False,
              submit_label := js ''Send message'', feedback := msg_thanks,
              navigations := navigations p @
                [js ''mailto:hello@aurora.example?subject='' @ subject @ js ''&body='' @ body]\<rparr>)"
proof -
  from assms(4) obtain n where n: "encodeURIComponent (trim (name_value s)) = Inr n"
    using enc_total by blast
  from assms(5) obtain e where e: "encodeURIComponent (trim (email_value s)) = Inr e"
    using enc_total by blast
  from assms(6) obtain m where m: "encodeURIComponent (trim (message_value s)) = Inr m"
    using enc_total by blast
  note subj = enc_subject [OF n]
  note body = enc_body [OF n e m]
  note h = submit_handler_accepts [OF assms(1-3)]
  note f = fire_submit_done [OF subj body]
  show ?thesis
    apply (rule exI [of _ n], rule exI [of _ e], rule exI [of _ m])
    apply (rule exI [of _ "js ''Website%20inquiry%20from%20'' @ n"])
    apply (rule exI [of _ "js ''Name%3A%20'' @ n @ js ''%0AEmail%3A%20'' @ e @ js ''%0A%0A'' @ m"])
    apply (intro conjI allI impI)
            apply (rule n)
           apply (rule e)
          apply (rule m)
         apply (rule subj)
        apply (rule refl)
       apply (rule body)
      apply (rule refl)
     apply (rule h)
    apply (erule f)
    done
qed


theorem accepted_submission_witness:
  "submit_disabled (submit_handler jane_page) \<and>
   submit_label (submit_handler jane_page) = js ''Sending...'' \<and>
   \<not> submit_disabled (fire (next_timer jane_page) (submit_handler jane_page)) \<and>
   submit_label (fire (next_timer jane_page) (submit_handler jane_page)) = js ''Send message'' \<and>
   navigations (fire (next_timer jane_page) (submit_handler jane_page)) =
     [js ''mailto:hello@aurora.example?subject='' @ js ''Website%20inquiry%20from%20'' @
      js ''Jane%20Doe'' @ js ''&body='' @ js ''Name%3A%20'' @ js ''Jane%20Doe'' @
      js ''%0AEmail%3A%20'' @ js ''jane%40example.com'' @ js ''%0A%0A'' @
      js ''I%20would%20like%20a%20quote%20for%20a%20new%20site'']"
proof -
  have v: "2 \<le> length (trim (name_value jane_page))"
    "regex_match email_pattern (trim (email_value jane_page))"
    "10 \<le> length (trim (message_value jane_page))"
    "well_formed (trim (name_value jane_page))"
    "well_formed (trim (email_value jane_page))"
    "well_formed (trim (message_value jane_page))"
    by code_simp+
  have c: "encodeURIComponent (trim (name_value jane_page)) = Inr (js ''Jane%20Doe'')"
    "encodeURIComponent (trim (email_value jane_page)) = Inr (js ''jane%40example.com'')"
    "encodeURIComponent (trim (message_value jane_page)) =
       Inr (js ''I%20would%20like%20a%20quote%20for%20a%20new%20site'')"
    by code_simp+
  have i: "next_timer jane_page = 1" "navigations jane_page = []"
    by (simp_all add: jane_page_def fresh_page_def)
  from accepted_submission [OF v] obtain n e m subject body where r:
    "encodeURIComponent (trim (name_value jane_page)) = Inr n"
    "encodeURIComponent (trim (email_value jane_page)) = Inr e"
    "encodeURIComponent (trim (message_value jane_page)) = Inr m"
    "subject = js ''Website%20inquiry%20from%20'' @ n"
    "body = js ''Name%3A%20'' @ n @ js ''%0AEmail%3A%20'' @ e @ js ''%0A%0A'' @ m"
    "submit_handler jane_page =
       jane_page\<lparr>feedback := [], submit_disabled := True, submit_label := js ''Sending...'',
         timers := (timers jane_page)(next_timer jane_page \<mapsto>
           Timeout 900 (SubmitDone (trim (name_value jane_page)) (trim (email_value jane_page))
             (trim (message_value jane_page)))),
         next_timer := next_timer jane_page + 1\<rparr>"
    "\<forall>p. timers p (next_timer jane_page) =
            Some (Timeout 900 (SubmitDone (trim (name_value jane_page))
              (trim (email_value jane_page)) (trim (message_value jane_page)))) \<longrightarrow>
          fire (next_timer jane_page) p =
            p\<lparr>timers := (timers p)(next_timer jane_page := None), submit_disabled := False,
              submit_label := js ''Send message'', feedback := msg_thanks,
              navigations := navigations p @
                [js ''mailto:hello@aurora.example?subject='' @ subject @ js ''&body='' @ body]\<rparr>"
    by blast
  from r(1-3) c have nem: "n = js ''Jane%20Doe''" "e = js ''jane%40example.com''"
    "m = js ''I%20would%20like%20a%20quote%20for%20a%20new%20site''"
    by simp_all
  have t: "timers (submit_handler jane_page) (next_timer jane_page) =
            Some (Timeout 900 (SubmitDone (trim (name_value jane_page))
              (trim (email_value jane_page)) (trim (message_value jane_page))))"
    by (subst r(6)) simp
  from r(7) t have f: "fire (next_timer jane_page) (submit_handler jane_page) =
     (submit_handler jane_page)\<lparr>timers := (timers (submit_handler jane_page))(next_timer jane_page := None),
        submit_disabled := False,
        submit_label := js ''Send message'', feedback := msg_thanks,
        navigations := navigations (submit_handler jane_page) @
                [js ''mailto:hello@aurora.example?subject='' @ subject @ js ''&body='' @ body]\<rparr>"
    by blast
  have d: "submit_disabled (submit_handler jane_page)"
    "submit_label (submit_handler jane_page) = js ''Sending...''"
    "navigations (submit_handler jane_page) = []"
    by (subst r(6), simp add: i)+
  show ?thesis
    using d by (simp add: f r(4,5) nem)
qed

text \<open>
  C2. The claim is right and the code misses a case. With the name \<open>Jane\<close>, a space
  and an unpaired high surrogate U+D83D (an emoji cut in two), the example email and the
  example message, the submission passes validation, the control is disabled and the
  deferred step is scheduled with a delay of 900 ms. When the step runs, it re-enables
  the control, restores the label and shows the text that the email client will open;
  then \<open>encodeURIComponent\<close> raises \<open>URIError\<close>, the exception leaves the callback
  and the assignment to \<open>window.location.href\<close> is never reached: no navigation takes
  place.
\<close>

theorem unpaired_surrogate_no_navigation:
  "2 \<le> length (trim (name_value cut_name_page)) \<and>
   regex_match email_pattern (trim (email_value cut_name_page)) \<and>
   10 \<le> length (trim (message_value cut_name_page)) \<and>
   submit_disabled (submit_handler cut_name_page) \<and>
   submit_label (submit_handler cut_name_page) = js ''Sending...'' \<and>
   timers (submit_handler cut_name_page) 1 =
     Some (Timeout 900 (SubmitDone (js ''Jane '' @ [0xD83D]) (js ''jane@example.com'')
       (js ''I would like a quote for a new site''))) \<and>
   \<not> submit_disabled (fire 1 (submit_handler cut_name_page)) \<and>
   submit_label (fire 1 (submit_handler cut_name_page)) = js ''Send message'' \<and>
   feedback (fire 1 (submit_handler cut_name_page)) =
     js ''Thanks '' @ [0x2014] @
     js '' message prepared. Your email client will open so you can send it (or use your preferred workflow).'' \<and>
   encodeURIComponent (js ''Website inquiry from '' @ js ''Jane '' @ [0xD83D]) = Inl URIError \<and>
   navigations (fire 1 (submit_handler cut_name_page)) = [] \<and>
   uncaught (fire 1 (submit_handler cut_name_page)) = [URIError]"
  by code_simp

lemma foldl_focus_listener_opacity:
  "cursor_opacity (foldl run_focus_listener s hs) \<in> {cursor_opacity s, js ''0'', js ''1''}"
proof (induction hs arbitrary: s)
  case Nil
  show ?case by simp
next
  case (Cons h hs)
  have "cursor_opacity (run_focus_listener s h) \<in> {cursor_opacity s, js ''0'', js ''1''}"
    by (cases h) simp_all
  with Cons [of "run_focus_listener s h"] show ?case by auto
qed

lemma foldl_focus_listener_none:
  "\<forall>h\<in>set hs. h \<noteq> HCursorHide \<and> h \<noteq> HCursorShow \<Longrightarrow> foldl run_focus_listener s hs = s"
proof (induction hs arbitrary: s)
  case Nil
  show ?case by simp
next
  case (Cons h hs)
  then have "run_focus_listener s h = s" by (cases h) simp_all
  with Cons show ?case by simp
qed

lemma focus_element_opacity:
  "cursor_opacity (focus_element el s) \<in> {cursor_opacity s, js ''0'', js ''1''}"
proof (cases "focused s = Some el")
  case True
  then show ?thesis by (simp add: focus_element_def)
next
  case False
  define s1 where "s1 = (case focused s of None \<Rightarrow> s
     | Some old \<Rightarrow> foldl run_focus_listener s (handlers_for old Blur s))"
  have 1: "cursor_opacity s1 \<in> {cursor_opacity s, js ''0'', js ''1''}"
    using foldl_focus_listener_opacity [of s]
    by (cases "focused s") (simp_all add: s1_def)
  have "cursor_opacity (foldl run_focus_listener (s1\<lparr>focused := Some el\<rparr>)
       (handlers_for el Focus (s1\<lparr>focused := Some el\<rparr>))) \<in>
       {cursor_opacity (s1\<lparr>focused := Some el\<rparr>), js ''0'', js ''1''}"
    by (rule foldl_focus_listener_opacity)
  with 1 False show ?thesis
    by (auto simp: focus_element_def Let_def s1_def [symmetric])
qed

lemma focus_element_no_listener:
  assumes "\<forall>l\<in>set (listeners s). snd (snd l) \<noteq> HCursorHide \<and> snd (snd l) \<noteq> HCursorShow"
  shows "focus_element el s = s\<lparr>focused := Some el\<rparr>"
proof -
  have h: "\<forall>h\<in>set (handlers_for t e p). h \<noteq> HCursorHide \<and> h \<noteq> HCursorShow"
    if "listeners p = listeners s" for t e p
    using assms that by (auto simp: handlers_for_def)
  show ?thesis
  proof (cases "focused s = Some el")
    case True
    then have "s\<lparr>focused := Some el\<rparr> = s" by simp
    with True show ?thesis by (simp add: focus_element_def)
  next
    case False
    have 1: "(case focused s of None \<Rightarrow> s
       | Some old \<Rightarrow> foldl run_focus_listener s (handlers_for old Blur s)) = s"
      using h [of s] by (cases "focused s") (simp_all add: foldl_focus_listener_none)
    have 2: "foldl run_focus_listener (s\<lparr>focused := Some el\<rparr>)
        (handlers_for el Focus (s\<lparr>focused := Some el\<rparr>)) = s\<lparr>focused := Some el\<rparr>"
      using h [of "s\<lparr>focused := Some el\<rparr>"] by (simp add: foldl_focus_listener_none)
    from False show ?thesis
      by (simp add: focus_element_def Let_def 1 2)
  qed
qed

text \<open>
  C3, as stated, fails: with the overlay enabled, the input fields carry its focus
  listeners, and \<open>focus()\<close> runs them before it returns. A rejected submission on a
  page whose name field is not focused sets the opacity of the overlay to \<open>0\<close>, a
  change besides the feedback text and the focused field.
\<close>

theorem rejected_submission_counterexample:
  "length (trim (name_value typing_page)) < 2 \<and>
   cursor_opacity typing_page = [] \<and>
   cursor_opacity (submit_handler typing_page) = js ''0''"
  by code_simp

text \<open>
  C3, amended. A submission that validation rejects (a trimmed name of fewer than two
  code units in particular) performs no navigation, leaves the submit control as it was,
  neither disabled nor relabelled, and schedules no deferred step. The page after it
  differs from the page before in the feedback text, the focused field and, where the
  overlay's focus listeners are registered, the opacity of the overlay, which is then
  the old one, \<open>0\<close> or \<open>1\<close>; where they are not registered, the feedback text and
  the focused field are the only changes.
\<close>

theorem rejected_submission:
  assumes "length (trim (name_value s)) < 2 \<or>
           \<not> regex_match email_pattern (trim (email_value s)) \<or>
           length (trim (message_value s)) < 10"
  shows "navigations (submit_handler s) = navigations s \<and>
         submit_disabled (submit_handler s) = submit_disabled s \<and>
         submit_label (submit_handler s) = submit_label s \<and>
         timers (submit_handler s) = timers s \<and>
         next_timer (submit_handler s) = next_timer s \<and>
         (\<exists>msg fld. fld \<in> {NameField, EmailField, MessageField} \<and>
            submit_handler s = focus_element fld (s\<lparr>feedback := msg\<rparr>)) \<and>
         (\<exists>msg fld opacity. opacity \<in> {cursor_opacity s, js ''0'', js ''1''} \<and>
            submit_handler s =
              s\<lparr>feedback := msg, focused := Some fld, cursor_opacity := opacity\<rparr>) \<and>
         ((\<forall>l\<in>set (listeners s). snd (snd l) \<noteq> HCursorHide \<and> snd (snd l) \<noteq> HCursorShow) \<longrightarrow>
            (\<exists>msg fld. submit_handler s = s\<lparr>feedback := msg, focused := Some fld\<rparr>))"
proof -
  have "\<exists>msg fld. fld \<in> {NameField, EmailField, MessageField} \<and>
          submit_handler s = focus_element fld (s\<lparr>feedback := msg\<rparr>)"
  proof (cases "length (trim (name_value s)) < 2")
    case True
    then have "submit_handler s = focus_element NameField (s\<lparr>feedback := msg_name\<rparr>)"
      by (simp add: submit_handler_def Let_def)
    then show ?thesis by blast
  next
    case name: False
    show ?thesis
    proof (cases "regex_match email_pattern (trim (email_value s))")
      case False
      with name have "submit_handler s = focus_element EmailField (s\<lparr>feedback := msg_email\<rparr>)"
        by (simp add: submit_handler_def Let_def)
      then show ?thesis by blast
    next
      case True
      with name assms have "submit_handler s = focus_element MessageField (s\<lparr>feedback := msg_message\<rparr>)"
        by (simp add: submit_handler_def Let_def)
      then show ?thesis by blast
    qed
  qed
  then obtain msg fld where 1: "fld \<in> {NameField, EmailField, MessageField}"
    "submit_handler s = focus_element fld (s\<lparr>feedback := msg\<rparr>)"
    by blast
  from focus_element_frame [of fld "s\<lparr>feedback := msg\<rparr>"] 1(2)
  obtain opacity where 2:
    "submit_handler s = s\<lparr>feedback := msg, focused := Some fld, cursor_opacity := opacity\<rparr>"
    by auto
  then have "opacity = cursor_opacity (submit_handler s)" by simp
  with focus_element_opacity [of fld "s\<lparr>feedback := msg\<rparr>"] 1(2)
  have 4: "opacity \<in> {cursor_opacity s, js ''0'', js ''1''}" by simp
  have 3: "navigations (submit_handler s) = navigations s"
    "submit_disabled (submit_handler s) = submit_disabled s"
    "submit_label (submit_handler s) = submit_label s"
    "timers (submit_handler s) = timers s"
    "next_timer (submit_handler s) = next_timer s"
    by (simp_all add: 2)
  have 5: "\<exists>msg fld. submit_handler s = s\<lparr>feedback := msg, focused := Some fld\<rparr>"
    if "\<forall>l\<in>set (listeners s). snd (snd l) \<noteq> HCursorHide \<and> snd (snd l) \<noteq> HCursorShow"
  proof -
    from that have "\<forall>l\<in>set (listeners (s\<lparr>feedback := msg\<rparr>)).
        snd (snd l) \<noteq> HCursorHide \<and> snd (snd l) \<noteq> HCursorShow" by simp
    from focus_element_no_listener [OF this, of fld] 1(2)
    have "submit_handler s = s\<lparr>feedback := msg, focused := Some fld\<rparr>" by simp
    then show ?thesis by blast
  qed
  from 1 2 3 4 5 show ?thesis by blast
qed

theorem rejected_submission_witness:
  "navigations (submit_handler typing_page) = navigations typing_page \<and>
   submit_disabled (submit_handler typing_page) = submit_disabled typing_page \<and>
   submit_label (submit_handler typing_page) = submit_label typing_page \<and>
   timers (submit_handler typing_page) = timers typing_page \<and>
   navigations (submit_handler (jane_page\<lparr>name_value := js '' J ''\<rparr>)) = [] \<and>
   cursor_opacity (submit_handler (jane_page\<lparr>name_value := js '' J ''\<rparr>)) = []"
proof -
  have 1: "length (trim (name_value typing_page)) < 2"
    "length (trim (name_value (jane_page\<lparr>name_value := js '' J ''\<rparr>))) < 2"
    by code_simp+
  have 2: "navigations (jane_page\<lparr>name_value := js '' J ''\<rparr>) = []"
    "cursor_opacity (jane_page\<lparr>name_value := js '' J ''\<rparr>) = []"
    "listeners (jane_page\<lparr>name_value := js '' J ''\<rparr>) = []"
    by (simp_all add: jane_page_def fresh_page_def)
  from 1(1) have a: "length (trim (name_value typing_page)) < 2 \<or>
           \<not> regex_match email_pattern (trim (email_value typing_page)) \<or>
           length (trim (message_value typing_page)) < 10"
    by blast
  from 1(2) have b: "length (trim (name_value (jane_page\<lparr>name_value := js '' J ''\<rparr>))) < 2 \<or>
           \<not> regex_match email_pattern (trim (email_value (jane_page\<lparr>name_value := js '' J ''\<rparr>))) \<or>
           length (trim (message_value (jane_page\<lparr>name_value := js '' J ''\<rparr>))) < 10"
    by blast
  from rejected_submission [OF b] 2(3)
  obtain msg fld where "submit_handler (jane_page\<lparr>name_value := js '' J ''\<rparr>) =
      (jane_page\<lparr>name_value := js '' J ''\<rparr>)\<lparr>feedback := msg, focused := Some fld\<rparr>"
    by auto
  then have c: "navigations (submit_handler (jane_page\<lparr>name_value := js '' J ''\<rparr>)) = []"
    "cursor_opacity (submit_handler (jane_page\<lparr>name_value := js '' J ''\<rparr>)) = []"
    using 2 by simp_all
  from rejected_submission [OF a] c show ?thesis
    by simp
qed

section \<open>Properties of the token list\<close>

lemma split_tokens_append:
  "\<not> list_ex ascii_whitespace u \<Longrightarrow> split_tokens cur (u @ r) = split_tokens (cur @ u) r"
  by (induction u arbitrary: cur) auto

lemma split_tokens_serialize:
  "\<forall>t\<in>set ts. valid_token t \<Longrightarrow> split_tokens [] (serialize ts) = ts"
proof (induction ts rule: serialize.induct)
  case 1
  show ?case by simp
next
  case (2 t)
  then have "split_tokens [] (t @ []) = split_tokens ([] @ t) []"
    by (intro split_tokens_append) (simp add: valid_token_def)
  with 2 show ?case by (simp add: valid_token_def)
next
  case (3 t u ts)
  then have "split_tokens [] (t @ 0x20 # serialize (u # ts)) =
      split_tokens ([] @ t) (0x20 # serialize (u # ts))"
    by (intro split_tokens_append) (simp add: valid_token_def)
  with 3 show ?case by (simp add: valid_token_def ascii_whitespace_def)
qed

lemma split_tokens_valid:
  "\<not> list_ex ascii_whitespace cur \<Longrightarrow> \<forall>t\<in>set (split_tokens cur s). valid_token t"
proof (induction s arbitrary: cur)
  case Nil
  then show ?case by (simp add: valid_token_def)
next
  case (Cons c cs)
  show ?case
  proof (cases "ascii_whitespace c")
    case True
    with Cons.prems Cons.IH [of "[]"] show ?thesis
      by (auto simp: valid_token_def)
  next
    case False
    with Cons.prems have "\<not> list_ex ascii_whitespace (cur @ [c])"
      by simp
    from Cons.IH [OF this] False show ?thesis
      by simp
  qed
qed

lemma set_foldl_set_append: "set (foldl set_append acc xs) = set acc \<union> set xs"
  by (induction xs arbitrary: acc) (auto simp: set_append_def)

lemma distinct_foldl_set_append: "distinct acc \<Longrightarrow> distinct (foldl set_append acc xs)"
  by (induction xs arbitrary: acc) (auto simp: set_append_def)

lemma foldl_set_append_distinct: "distinct (acc @ xs) \<Longrightarrow> foldl set_append acc xs = acc @ xs"
  by (induction xs arbitrary: acc) (auto simp: set_append_def)

lemma tokens_valid: "t \<in> set (tokens cn) \<Longrightarrow> valid_token t"
  using split_tokens_valid [of "[]" cn] by (simp add: tokens_def set_foldl_set_append)

lemma tokens_distinct: "distinct (tokens cn)"
  by (simp add: tokens_def distinct_foldl_set_append)

lemma tokens_serialize:
  "\<forall>t\<in>set ts. valid_token t \<Longrightarrow> distinct ts \<Longrightarrow> tokens (serialize ts) = ts"
  using foldl_set_append_distinct [of "[]" ts] by (simp add: tokens_def split_tokens_serialize)

lemma tokens_classList_add:
  "valid_token t \<Longrightarrow> tokens (classList_add t cn) = set_append (tokens cn) t"
  unfolding classList_add_def
  by (rule tokens_serialize) (auto simp: set_append_def tokens_distinct dest: tokens_valid)

lemma tokens_classList_remove:
  "tokens (classList_remove t cn) = filter (\<lambda>u. u \<noteq> t) (tokens cn)"
  unfolding classList_remove_def
  by (rule tokens_serialize) (auto simp: tokens_distinct dest: tokens_valid)

lemma contains_classList_add:
  "valid_token t \<Longrightarrow>
     classList_contains u (classList_add t cn) \<longleftrightarrow> u = t \<or> classList_contains u cn"
  by (auto simp: classList_contains_def tokens_classList_add set_append_def)

lemma contains_classList_remove:
  "classList_contains u (classList_remove t cn) \<longleftrightarrow> u \<noteq> t \<and> classList_contains u cn"
  by (auto simp: classList_contains_def tokens_classList_remove)

lemma theme_tokens:
  "valid_token theme_dark" "valid_token theme_light" "theme_dark \<noteq> theme_light"
  "valid_token (js ''revealed'')"
  by code_simp+

lemma className_toggle_other:
  "el \<noteq> Body \<Longrightarrow> className (theme_toggle_click s) el = className s el"
  by (simp add: theme_toggle_click_def Let_def split: prod.split)

lemma contains_toggle:
  "classList_contains c (className (theme_toggle_click s) Body) \<longleftrightarrow>
     (if c = theme_dark then \<not> classList_contains theme_dark (className s Body)
      else if c = theme_light then classList_contains theme_dark (className s Body)
      else classList_contains c (className s Body))"
  using theme_tokens(3) theme_tokens(3) [symmetric]
  by (auto simp: theme_toggle_click_def Let_def classList_toggle_def contains_classList_add
      contains_classList_remove theme_tokens classList_contains_def [symmetric])

lemma storage_toggle:
  "storage (theme_toggle_click s) =
     (storage s)(site_theme \<mapsto>
        (if classList_contains theme_dark (className s Body) then theme_light else theme_dark))"
  by (simp add: theme_toggle_click_def Let_def classList_toggle_def classList_contains_def)

section \<open>Theme\<close>

text \<open>
  C7, as stated, fails: on a first visit nothing is stored and the body carries neither
  theme class; two toggles leave the value \<open>theme-light\<close> stored and the class
  \<open>theme-light\<close> on the body.
\<close>

theorem toggle_twice_counterexample:
  "storage fresh_page site_theme = None \<and>
   storage (theme_toggle_click (theme_toggle_click fresh_page)) site_theme = Some theme_light \<and>
   className fresh_page Body = [] \<and>
   className (theme_toggle_click (theme_toggle_click fresh_page)) Body = js ''theme-light''"
  by code_simp

text \<open>
  C7, amended. A toggle always ends in a state where the body carries exactly one of
  the two theme classes and the stored value names it. From every such state (every
  state after a toggle, and the state after initialisation from a stored
  \<open>theme-dark\<close> or \<open>theme-light\<close>), two toggles in succession give back the stored
  values and the set of classes of the body.
\<close>

theorem toggle_twice:
  "theme_consistent (theme_toggle_click s) \<and>
   (theme_consistent s \<longrightarrow>
      storage (theme_toggle_click (theme_toggle_click s)) = storage s \<and>
      (\<forall>c. classList_contains c (className (theme_toggle_click (theme_toggle_click s)) Body)
             \<longleftrightarrow> classList_contains c (className s Body)))"
proof (intro conjI impI)
  show "theme_consistent (theme_toggle_click s)"
    using theme_tokens(3) by (simp add: theme_consistent_def contains_toggle storage_toggle)
next
  assume c: "theme_consistent s"
  then show "storage (theme_toggle_click (theme_toggle_click s)) = storage s"
    by (auto simp: theme_consistent_def contains_toggle storage_toggle)
next
  assume c: "theme_consistent s"
  then show "\<forall>c. classList_contains c (className (theme_toggle_click (theme_toggle_click s)) Body)
             \<longleftrightarrow> classList_contains c (className s Body)"
    using theme_tokens(3) by (auto simp: theme_consistent_def contains_toggle)
qed

theorem toggle_twice_witness:
  "theme_consistent (theme_toggle_click fresh_page) \<and>
   storage (theme_toggle_click (theme_toggle_click (theme_toggle_click fresh_page))) =
     storage (theme_toggle_click fresh_page) \<and>
   (classList_contains theme_dark
      (className (theme_toggle_click (theme_toggle_click (theme_toggle_click fresh_page))) Body)
    \<longleftrightarrow> classList_contains theme_dark (className (theme_toggle_click fresh_page) Body))"
  using toggle_twice [of fresh_page] toggle_twice [of "theme_toggle_click fresh_page"]
  by blast

text \<open>
  C10. Initialisation from a stored value writes exactly the stored string to the class
  attribute of the body, so every class that is not a token of that string is gone,
  whatever the body carried before. A toggle changes the membership of the two theme
  classes only: every other class is on the body afterwards exactly when it was before,
  and the other classes keep their order.
\<close>

theorem init_overwrites:
  "(\<forall>t. storage s site_theme = Some t \<and> t \<noteq> [] \<longrightarrow>
      className (init_theme s) Body = t \<and>
      (\<forall>c. c \<notin> set (tokens t) \<longrightarrow> \<not> classList_contains c (className (init_theme s) Body))) \<and>
   (\<forall>c. c \<noteq> theme_dark \<and> c \<noteq> theme_light \<longrightarrow>
      (classList_contains c (className (theme_toggle_click s) Body) \<longleftrightarrow>
       classList_contains c (className s Body))) \<and>
   filter (\<lambda>c. c \<noteq> theme_dark \<and> c \<noteq> theme_light) (tokens (className (theme_toggle_click s) Body)) =
   filter (\<lambda>c. c \<noteq> theme_dark \<and> c \<noteq> theme_light) (tokens (className s Body))"
proof (intro conjI allI impI)
  fix t c
  assume "storage s site_theme = Some t \<and> t \<noteq> []"
  then show "className (init_theme s) Body = t"
    by (simp add: init_theme_def)
  assume "c \<notin> set (tokens t)"
  with \<open>className (init_theme s) Body = t\<close>
  show "\<not> classList_contains c (className (init_theme s) Body)"
    by (simp add: classList_contains_def)
next
  fix c
  assume "c \<noteq> theme_dark \<and> c \<noteq> theme_light"
  then show "classList_contains c (className (theme_toggle_click s) Body) \<longleftrightarrow>
       classList_contains c (className s Body)"
    by (simp add: contains_toggle)
next
  show "filter (\<lambda>c. c \<noteq> theme_dark \<and> c \<noteq> theme_light) (tokens (className (theme_toggle_click s) Body)) =
   filter (\<lambda>c. c \<noteq> theme_dark \<and> c \<noteq> theme_light) (tokens (className s Body))"
    by (auto simp: theme_toggle_click_def Let_def classList_toggle_def tokens_classList_add
      tokens_classList_remove theme_tokens set_append_def intro: filter_cong)
qed
theorem init_overwrites_witness:
  "className (init_theme returning_page) Body = theme_dark \<and>
   classList_contains (js ''layout'') (className returning_page Body) \<and>
   \<not> classList_contains (js ''layout'') (className (init_theme returning_page) Body) \<and>
   classList_contains (js ''layout'') (className (theme_toggle_click returning_page) Body)"
proof -
  have h: "storage returning_page site_theme = Some theme_dark \<and> theme_dark \<noteq> []"
    "js ''layout'' \<notin> set (tokens theme_dark)"
    "js ''layout'' \<noteq> theme_dark \<and> js ''layout'' \<noteq> theme_light"
    "classList_contains (js ''layout'') (className returning_page Body)"
    by code_simp+
  from init_overwrites [of returning_page] h show ?thesis
    by blast
qed

section \<open>The loops of the script\<close>

lemma foldl_smooth_scroll:
  "foldl (\<lambda>s a. addEventListener a Click HSmoothScroll s) s els =
     s\<lparr>listeners := listeners s @ map (\<lambda>a. (a, Click, HSmoothScroll)) els\<rparr>"
  by (induction els arbitrary: s) (simp_all add: addEventListener_def)

lemma foldl_attachTilt:
  "foldl attachTilt s els =
     s\<lparr>listeners := listeners s @
          concat (map (\<lambda>el. [(el, MouseMove, HTiltMove), (el, MouseLeave, HTiltLeave)]) els)\<rparr>"
  by (induction els arbitrary: s) (simp_all add: attachTilt_def addEventListener_def)

lemma foldl_attach_hover:
  "foldl attach_hover s els =
     s\<lparr>listeners := listeners s @
          concat (map (\<lambda>n. [(n, PointerEnter, HCursorEnter), (n, PointerLeave, HCursorLeave)]) els)\<rparr>"
  by (induction els arbitrary: s) (simp_all add: attach_hover_def addEventListener_def)

lemma foldl_attach_typing:
  "foldl attach_typing s els =
     s\<lparr>listeners := listeners s @
          concat (map (\<lambda>n. [(n, Focus, HCursorHide), (n, Blur, HCursorShow)]) els)\<rparr>"
  by (induction els arbitrary: s) (simp_all add: attach_typing_def addEventListener_def)

lemma foldl_add_class:
  "foldl (\<lambda>s el. add_class el t s) s els =
     s\<lparr>className := foldl (\<lambda>C el. C(el := classList_add t (C el))) (className s) els\<rparr>"
  by (induction els arbitrary: s) (simp_all add: add_class_def)

lemma foldl_reveal_if_visible:
  "foldl (reveal_if_visible v) s els =
     s\<lparr>className :=
          foldl (\<lambda>C el. if rect_top v el < js_mul (of_int (innerHeight v)) (fl64 (9 / 10))
                         then C(el := classList_add (js ''revealed'') (C el)) else C)
            (className s) els\<rparr>"
  by (induction els arbitrary: s) (simp_all add: reveal_if_visible_def add_class_def)

lemma foldl_stagger:
  "foldl (stagger v) s els =
     s\<lparr>transitionDelay :=
          foldl (\<lambda>D el. D(el := number_to_string (stagger_delay (rect_top v el)) @ js ''ms''))
            (transitionDelay s) els,
        observer :=
          map_option (\<lambda>ob. ob\<lparr>io_targets := foldl set_append (io_targets ob) els\<rparr>) (observer s)\<rparr>"
proof (induction els arbitrary: s)
  case Nil
  show ?case by (cases "observer s") simp_all
next
  case (Cons el els)
  have step: "stagger v s el =
      s\<lparr>transitionDelay :=
           (transitionDelay s)(el := number_to_string (stagger_delay (rect_top v el)) @ js ''ms''),
         observer := map_option (\<lambda>ob. ob\<lparr>io_targets := set_append (io_targets ob) el\<rparr>) (observer s)\<rparr>"
    by (cases "observer s") (simp_all add: stagger_def observe_def)
  show ?case
    unfolding foldl_Cons Cons step
    by (cases "observer s") simp_all
qed

lemma init_theme_fields:
  "storage (init_theme s) = storage s"
  "storage_log (init_theme s) = storage_log s"
  "listeners (init_theme s) = listeners s"
  "timers (init_theme s) = timers s"
  "next_timer (init_theme s) = next_timer s"
  "ringAnim (init_theme s) = ringAnim s"
  "ring_animations (init_theme s) = ring_animations s"
  "observer (init_theme s) = observer s"
  "transitionDelay (init_theme s) = transitionDelay s"
  "cursor_display (init_theme s) = cursor_display s"
  "el \<noteq> Body \<Longrightarrow> className (init_theme s) el = className s el"
  by (simp_all add: init_theme_def split: option.split)

lemma init_theme_year:
  "init_theme (s\<lparr>year_text := y\<rparr>) = (init_theme s)\<lparr>year_text := y\<rparr>"
  by (simp add: init_theme_def split: option.split)

lemmas startup_loops = startup_def Let_def init_reveal_def init_tilt_def init_cursor_def
  init_visible_def foldl_smooth_scroll foldl_attachTilt foldl_attach_hover foldl_attach_typing
  foldl_add_class foldl_reveal_if_visible foldl_stagger

lemmas startup_steps = startRingPulse_def setInterval_def addEventListener_def init_theme_fields
  init_theme_year

lemma startup_storage:
  "storage (startup v s) = storage s"
  "storage_log (startup v s) = storage_log s"
  by (simp_all only: startup_loops) (simp_all add: startup_steps)

lemma startup_listeners:
  "listeners (startup v s) =
     listeners s @ [(ThemeToggle, Click, HThemeToggle), (MobileNavToggle, Click, HNavToggle)] @
     map (\<lambda>a. (a, Click, HSmoothScroll)) (anchor_els v) @
     (if \<not> prefersReduced v \<and> \<not> isTouch v
      then concat (map (\<lambda>el. [(el, MouseMove, HTiltMove), (el, MouseLeave, HTiltLeave)]) (tilt_els v))
      else []) @
     (if cursor_present v \<and> \<not> isTouch v \<and> \<not> prefersReduced v
      then [(Document, MouseMove, HCursorMove)] @
        concat (map (\<lambda>n. [(n, PointerEnter, HCursorEnter), (n, PointerLeave, HCursorLeave)])
          (interactive_els v)) @
        concat (map (\<lambda>n. [(n, Focus, HCursorHide), (n, Blur, HCursorShow)]) (input_els v)) @
        [(Window, Blur, HClearRingPulse)]
      else []) @
     [(Form, Submit, HSubmit), (ResetBtn, Click, HReset), (Document, KeyDown, HEscape)]"
  by (simp only: startup_loops) (simp add: startup_steps)

lemma startup_timers:
  "timers (startup v s) =
     (if cursor_present v \<and> \<not> isTouch v \<and> \<not> prefersReduced v
      then (timers s)(next_timer s \<mapsto> Interval 3200 RingPulse) else timers s)"
  "ringAnim (startup v s) =
     (if cursor_present v \<and> \<not> isTouch v \<and> \<not> prefersReduced v
      then Some (next_timer s) else ringAnim s)"
  "next_timer (startup v s) =
     (if cursor_present v \<and> \<not> isTouch v \<and> \<not> prefersReduced v
      then next_timer s + 1 else next_timer s)"
  "ring_animations (startup v s) = ring_animations s"
  by (simp_all only: startup_loops) (simp_all add: startup_steps)

lemma startup_observer:
  "observer (startup v s) =
     (if \<not> prefersReduced v
      then Some \<lparr>io_threshold = reveal_threshold, io_targets = foldl set_append [] (reveal_els v)\<rparr>
      else observer s)"
  "transitionDelay (startup v s) =
     (if \<not> prefersReduced v
      then foldl (\<lambda>D el. D(el := number_to_string (stagger_delay (rect_top v el)) @ js ''ms''))
             (transitionDelay s) (reveal_els v)
      else transitionDelay s)"
  "cursor_display (startup v s) =
     (if cursor_present v \<and> (isTouch v \<or> prefersReduced v) then js ''none'' else cursor_display s)"
  by (simp_all only: startup_loops) (auto simp add: startup_steps)

lemma startup_className:
  "className (startup v s) =
     foldl (\<lambda>C el. if rect_top v el < js_mul (of_int (innerHeight v)) (fl64 (9 / 10))
                    then C(el := classList_add (js ''revealed'') (C el)) else C)
       (if prefersReduced v
        then foldl (\<lambda>C el. C(el := classList_add (js ''revealed'') (C el)))
               (className (init_theme s)) (reveal_els v)
        else className (init_theme s))
       (reveal_els v)"
  by (simp only: startup_loops) (simp add: startup_steps)

text \<open>
  The loops of the script update one element at a time. What holds of an element and is
  kept by every step holds after the loop; what a step establishes for its own element
  and every step keeps holds for every element of the list.
\<close>

lemma foldl_keeps:
  "(\<And>C a. Q (C el) \<Longrightarrow> Q (upd C a el)) \<Longrightarrow> Q (C el) \<Longrightarrow> Q (foldl upd C els el)"
proof (induction els arbitrary: C)
  case Nil
  then show ?case by simp
next
  case (Cons a els)
  from Cons.prems have "Q (upd C a el)" by blast
  with Cons.IH [of "upd C a"] Cons.prems(1) have "Q (foldl upd (upd C a) els el)"
    by blast
  then show ?case by simp
qed

lemma foldl_establishes:
  "(\<And>C. Q (upd C el el)) \<Longrightarrow> (\<And>C a. Q (C el) \<Longrightarrow> Q (upd C a el)) \<Longrightarrow>
     el \<in> set els \<Longrightarrow> Q (foldl upd C els el)"
proof (induction els arbitrary: C)
  case Nil
  then show ?case by simp
next
  case (Cons a els)
  show ?case
  proof (cases "a = el")
    case True
    from Cons.prems(1) have "Q (upd C el el)" .
    with foldl_keeps [of Q el upd "upd C el" els] Cons.prems(2)
    have "Q (foldl upd (upd C el) els el)" by blast
    with True show ?thesis by simp
  next
    case False
    with Cons.prems have "el \<in> set els" by simp
    with Cons.IH [of "upd C a"] Cons.prems(1,2) have "Q (foldl upd (upd C a) els el)"
      by blast
    then show ?thesis by simp
  qed
qed

lemma foldl_upd_last:
  "el \<in> set els \<Longrightarrow> foldl (\<lambda>D el. D(el := f el)) D els el = f el"
  by (rule foldl_establishes [where Q = "\<lambda>x. x = f el"]) simp_all

lemma fold_add_keeps:
  "classList_contains t (C el) \<Longrightarrow> valid_token u \<Longrightarrow>
     classList_contains t (foldl (\<lambda>C el. C(el := classList_add u (C el))) C els el)"
  by (rule foldl_keeps [where Q = "classList_contains t"]) (auto simp: contains_classList_add)

lemma fold_add_sets:
  "el \<in> set els \<Longrightarrow> valid_token u \<Longrightarrow>
     classList_contains u (foldl (\<lambda>C el. C(el := classList_add u (C el))) C els el)"
  by (rule foldl_establishes [where Q = "classList_contains u"])
     (auto simp: contains_classList_add)

lemma fold_add_other:
  "el \<notin> set els \<Longrightarrow> foldl (\<lambda>C el. C(el := classList_add u (C el))) C els el = C el"
  by (induction els arbitrary: C) simp_all

lemma fold_visible_keeps:
  "classList_contains t (C el) \<Longrightarrow> valid_token u \<Longrightarrow>
     classList_contains t
       (foldl (\<lambda>C el. if P el then C(el := classList_add u (C el)) else C) C els el)"
  by (rule foldl_keeps [where Q = "classList_contains t"]) (auto simp: contains_classList_add)

lemma fold_visible_sets:
  "el \<in> set els \<Longrightarrow> P el \<Longrightarrow> valid_token u \<Longrightarrow>
     classList_contains u
       (foldl (\<lambda>C el. if P el then C(el := classList_add u (C el)) else C) C els el)"
  by (rule foldl_establishes [where Q = "classList_contains u"])
     (auto simp: contains_classList_add)

lemma fold_visible_skip:
  "\<not> P el \<or> el \<notin> set els \<Longrightarrow>
     foldl (\<lambda>C el. if P el then C(el := classList_add u (C el)) else C) C els el = C el"
  by (induction els arbitrary: C) auto

lemma startup_theme:
  "aria_pressed (startup v s) = aria_pressed (init_theme s)"
  "theme_glyph (startup v s) = theme_glyph (init_theme s)"
  by (simp_all only: startup_loops) (simp_all add: startup_steps)

section \<open>Initialisation\<close>

text \<open>
  C8. The script never writes to the store while it starts: the stored values and the
  list of \<open>setItem\<close> calls are the same after the whole script as before. When a
  non-empty theme value is stored, it is applied: it becomes the class attribute of the
  body (and stays so to the end of the script unless the body is itself a reveal
  candidate), the pressed flag is set to whether the value is \<open>theme-dark\<close>, and the
  glyph is the sun for \<open>theme-dark\<close> and the moon otherwise.
\<close>

theorem init_no_write:
  "storage (startup v s) = storage s \<and> storage_log (startup v s) = storage_log s \<and>
   (\<forall>t. storage s site_theme = Some t \<and> t \<noteq> [] \<longrightarrow>
      className (init_theme s) Body = t \<and>
      (Body \<notin> set (reveal_els v) \<longrightarrow> className (startup v s) Body = t) \<and>
      aria_pressed (startup v s) = Some (bool_string (t = theme_dark)) \<and>
      theme_glyph (startup v s) = (if t = theme_dark then glyph_sun else glyph_moon))"
proof (intro conjI allI impI)
  fix t
  assume t: "storage s site_theme = Some t \<and> t \<noteq> []"
  then show 1: "className (init_theme s) Body = t"
    by (simp add: init_theme_def)
  from t show "aria_pressed (startup v s) = Some (bool_string (t = theme_dark))"
    by (simp add: startup_theme init_theme_def)
  from t show "theme_glyph (startup v s) = (if t = theme_dark then glyph_sun else glyph_moon)"
    by (simp add: startup_theme init_theme_def)
  assume "Body \<notin> set (reveal_els v)"
  with 1 show "className (startup v s) Body = t"
    by (simp add: startup_className fold_visible_skip fold_add_other)
qed (simp_all add: startup_storage)
theorem init_no_write_witness:
  "storage returning_page site_theme = Some theme_dark \<and>
   className (init_theme returning_page) Body = theme_dark \<and>
   className (startup sample_env returning_page) Body = theme_dark \<and>
   aria_pressed (startup sample_env returning_page) = Some (js ''true'') \<and>
   theme_glyph (startup sample_env returning_page) = glyph_sun \<and>
   storage (startup sample_env returning_page) = storage returning_page \<and>
   storage_log (startup sample_env returning_page) = storage_log returning_page"
proof -
  have h: "storage returning_page site_theme = Some theme_dark \<and> theme_dark \<noteq> []"
    by code_simp
  have b: "Body \<notin> set (reveal_els sample_env)"
    by (simp add: sample_env_def)
  from init_no_write [of sample_env returning_page] h b show ?thesis
    by (simp add: bool_string_def)
qed

section \<open>Reduced motion\<close>

text \<open>
  C5. When the environment signals the reduced-motion preference, the script marks
  every reveal candidate revealed, creates no observer, registers no listener besides
  those of the theme toggle, the navigation toggle, the internal links, the form, the
  reset button and the Escape key (so none for tilt and none for the cursor), starts no
  timer, and hides the overlay when it exists.
\<close>

theorem reduced_motion:
  assumes "prefersReduced v"
  shows "(\<forall>el\<in>set (reveal_els v). revealed el (startup v s)) \<and>
         observer (startup v s) = observer s \<and>
         listeners (startup v s) =
           listeners s @ [(ThemeToggle, Click, HThemeToggle), (MobileNavToggle, Click, HNavToggle)] @
           map (\<lambda>a. (a, Click, HSmoothScroll)) (anchor_els v) @
           [(Form, Submit, HSubmit), (ResetBtn, Click, HReset), (Document, KeyDown, HEscape)] \<and>
         timers (startup v s) = timers s \<and>
         (cursor_present v \<longrightarrow> cursor_display (startup v s) = js ''none'')"
proof (intro conjI ballI impI)
  fix el
  assume "el \<in> set (reveal_els v)"
  then show "revealed el (startup v s)"
    using assms
    by (simp add: revealed_def startup_className fold_visible_keeps fold_add_sets theme_tokens)
qed (simp_all add: assms startup_observer startup_listeners startup_timers)

theorem reduced_motion_witness:
  "revealed (Node 0) (startup reduced_env fresh_page) \<and>
   revealed (Node 1) (startup reduced_env fresh_page) \<and>
   observer (startup reduced_env fresh_page) = None \<and>
   listeners (startup reduced_env fresh_page) =
     [(ThemeToggle, Click, HThemeToggle), (MobileNavToggle, Click, HNavToggle),
      (Node 10, Click, HSmoothScroll),
      (Form, Submit, HSubmit), (ResetBtn, Click, HReset), (Document, KeyDown, HEscape)] \<and>
   timers (startup reduced_env fresh_page) = Map.empty \<and>
   cursor_display (startup reduced_env fresh_page) = js ''none''"
proof -
  have h: "prefersReduced reduced_env" "cursor_present reduced_env"
    "reveal_els reduced_env = [Node 0, Node 1]" "anchor_els reduced_env = [Node 10]"
    by (simp_all add: reduced_env_def sample_env_def)
  have p: "observer fresh_page = None" "listeners fresh_page = []" "timers fresh_page = Map.empty"
    by (simp_all add: fresh_page_def)
  from reduced_motion [OF h(1), of fresh_page] show ?thesis
    by (simp add: h p)
qed

section \<open>Properties of binary64 rounding\<close>

lemma pow2_powi: "pow2 e = 2 powi e"
  by (simp add: pow2_def power_int_def inverse_eq_divide power_one_over)

lemma pow2_pos: "0 < pow2 e"
  by (simp add: pow2_powi)

lemma pow2_add: "pow2 (a + b) = pow2 a * pow2 b"
  by (simp add: pow2_powi power_int_add)

lemma pow2_mono: "a \<le> b \<Longrightarrow> pow2 a \<le> pow2 b"
  by (simp add: pow2_powi power_int_increasing)

lemma pow2_strict_mono: "a < b \<Longrightarrow> pow2 a < pow2 b"
  by (simp add: pow2_powi power_int_strict_increasing)

lemma pow2_less_iff: "pow2 a < pow2 b \<longleftrightarrow> a < b"
  using pow2_strict_mono [of a b] pow2_mono [of b a] by (auto simp: not_less [symmetric])

lemma pow2_nat: "pow2 (int n) = 2 ^ n"
  by (simp add: pow2_def)

lemma pow2_Suc: "pow2 (e + 1) = 2 * pow2 e"
  by (simp add: pow2_powi power_int_add_1)

lemma pow2_diff_int: "a \<le> b \<Longrightarrow> pow2 b = of_int (2 ^ nat (b - a)) * pow2 a"
proof -
  assume "a \<le> b"
  then have "pow2 b = pow2 (int (nat (b - a)) + a)" by simp
  then show ?thesis by (simp only: pow2_add pow2_nat) simp
qed

text \<open>The binary exponent brackets the magnitude.\<close>

lemma binary_exponent_bounds:
  assumes "x \<noteq> 0"
  shows "pow2 (binary_exponent x) \<le> \<bar>x\<bar> \<and> \<bar>x\<bar> < pow2 (binary_exponent x + 1)"
proof -
  obtain p q where pq: "quotient_of \<bar>x\<bar> = (p, q)" by (cases "quotient_of \<bar>x\<bar>")
  then have q: "0 < q" by (rule quotient_of_denom_pos)
  from pq have x: "\<bar>x\<bar> = of_int p / of_int q" by (rule quotient_of_div)
  from assms have "0 < \<bar>x\<bar>" by simp
  with x q have p: "0 < p" by (simp add: zero_less_divide_iff)
  define bp where "bp = bitlen p"
  define bq where "bq = bitlen q"
  from bitlen_bounds [OF p] have bp: "2 ^ nat (bp - 1) \<le> p" "p < 2 ^ nat bp"
    by (simp_all add: bp_def)
  from bitlen_bounds [OF q] have bq: "2 ^ nat (bq - 1) \<le> q" "q < 2 ^ nat bq"
    by (simp_all add: bq_def)
  have bp1: "1 \<le> bp" using p by (simp add: bp_def bitlen_alt_def)
  have bq1: "1 \<le> bq" using q by (simp add: bq_def bitlen_alt_def)
  have P: "pow2 (bp - 1) \<le> of_int p" "of_int p < pow2 bp"
  proof -
    have "(of_int (2 ^ nat (bp - 1)) :: rat) \<le> of_int p" using bp(1) by (simp only: of_int_le_iff)
    then show "pow2 (bp - 1) \<le> of_int p" using bp1 by (simp add: pow2_def)
    have "(of_int p :: rat) < of_int (2 ^ nat bp)" using bp(2) by (simp only: of_int_less_iff)
    then show "of_int p < pow2 bp" using bp1 by (simp add: pow2_def)
  qed
  have Q: "pow2 (bq - 1) \<le> of_int q" "of_int q < pow2 bq"
  proof -
    have "(of_int (2 ^ nat (bq - 1)) :: rat) \<le> of_int q" using bq(1) by (simp only: of_int_le_iff)
    then show "pow2 (bq - 1) \<le> of_int q" using bq1 by (simp add: pow2_def)
    have "(of_int q :: rat) < of_int (2 ^ nat bq)" using bq(2) by (simp only: of_int_less_iff)
    then show "of_int q < pow2 bq" using bq1 by (simp add: pow2_def)
  qed
  have qpos: "(0::rat) < of_int q" using q by simp
  have up: "\<bar>x\<bar> < pow2 (bp - bq + 1)"
  proof -
    have "of_int p < pow2 (bp - bq + 1) * pow2 (bq - 1)"
      using P(2) by (simp add: pow2_add [symmetric])
    also have "\<dots> \<le> pow2 (bp - bq + 1) * of_int q"
      using Q(1) pow2_pos [of "bp - bq + 1"] by (simp add: mult_left_mono)
    finally show ?thesis using qpos by (simp add: x pos_divide_less_eq)
  qed
  have lo: "pow2 (bp - bq - 1) \<le> \<bar>x\<bar>"
  proof -
    have "pow2 (bp - bq - 1) * of_int q \<le> pow2 (bp - bq - 1) * pow2 bq"
      using Q(2) pow2_pos [of "bp - bq - 1"] by (simp add: mult_left_mono)
    also have "\<dots> = pow2 (bp - 1)"
      by (simp add: pow2_add [symmetric])
    also have "\<dots> \<le> of_int p" by (rule P(1))
    finally show ?thesis using qpos by (simp add: x pos_le_divide_eq)
  qed
  show ?thesis
  proof (cases "pow2 (bp - bq) \<le> \<bar>x\<bar>")
    case True
    then have "binary_exponent x = bp - bq"
      by (simp add: binary_exponent_def pq bp_def bq_def)
    with True up show ?thesis by simp
  next
    case False
    then have "binary_exponent x = bp - bq - 1"
      by (simp add: binary_exponent_def pq bp_def bq_def)
    with False lo show ?thesis by simp
  qed
qed

lemma binary_exponent_unique:
  assumes "pow2 e \<le> \<bar>x\<bar>" "\<bar>x\<bar> < pow2 (e + 1)"
  shows "binary_exponent x = e"
proof -
  from assms pow2_pos [of e] have "x \<noteq> 0" by auto
  from binary_exponent_bounds [OF this] assms
  have "pow2 (binary_exponent x) < pow2 (e + 1)" "pow2 e < pow2 (binary_exponent x + 1)"
    by auto
  then show ?thesis by (simp add: pow2_less_iff)
qed

lemma binary_exponent_mono:
  assumes "x \<noteq> 0" "\<bar>x\<bar> \<le> \<bar>y\<bar>"
  shows "binary_exponent x \<le> binary_exponent y"
proof -
  from assms have "y \<noteq> 0" by auto
  from binary_exponent_bounds [OF this] binary_exponent_bounds [OF assms(1)] assms(2)
  have "pow2 (binary_exponent x) < pow2 (binary_exponent y + 1)" by auto
  then show ?thesis by (simp add: pow2_less_iff)
qed

lemma round_ties_even_int: "round_ties_even (of_int n) = n"
  by (simp add: round_ties_even_def)

lemma round_ties_even_le:
  assumes "y \<le> of_int M"
  shows "round_ties_even y \<le> M"
proof (cases "y = of_int M")
  case True
  then show ?thesis by (simp add: round_ties_even_int)
next
  case False
  with assms have "y < of_int M" by simp
  then have "\<lfloor>y\<rfloor> < M" by (simp add: floor_less_iff)
  then show ?thesis by (simp add: round_ties_even_def Let_def)
qed

lemma round_ties_even_near:
  assumes "of_int m \<le> y" "y < of_int m + 1 / 2"
  shows "round_ties_even y = m"
proof -
  from assms have "\<lfloor>y\<rfloor> = m" by (intro floor_unique) auto
  with assms show ?thesis by (simp add: round_ties_even_def Let_def)
qed

lemma round_ties_even_error: "\<bar>of_int (round_ties_even y) - y\<bar> \<le> 1 / 2"
proof -
  define r where "r = y - of_int \<lfloor>y\<rfloor>"
  have r: "0 \<le> r" "r < 1" unfolding r_def by linarith+
  have y: "y = of_int \<lfloor>y\<rfloor> + r" by (simp add: r_def)
  consider "r < 1 / 2" | "1 / 2 < r" | "r = 1 / 2" by linarith
  then show ?thesis
  proof cases
    case 1
    then have "round_ties_even y = \<lfloor>y\<rfloor>"
      by (simp add: round_ties_even_def Let_def r_def)
    with 1 r show ?thesis by (simp add: r_def [symmetric] algebra_simps)
  next
    case 2
    then have "round_ties_even y = \<lfloor>y\<rfloor> + 1"
      by (simp add: round_ties_even_def Let_def r_def)
    then have "of_int (round_ties_even y) - y = 1 - r"
      by (simp add: r_def)
    with 2 r show ?thesis by simp
  next
    case 3
    then have "round_ties_even y = \<lfloor>y\<rfloor> \<or> round_ties_even y = \<lfloor>y\<rfloor> + 1"
      by (simp add: round_ties_even_def Let_def r_def)
    then have "of_int (round_ties_even y) - y = - r \<or> of_int (round_ties_even y) - y = 1 - r"
      by (auto simp: r_def)
    with 3 show ?thesis by auto
  qed
qed

lemma round_ties_even_nonneg: "0 \<le> y \<Longrightarrow> 0 \<le> round_ties_even y"
  by (simp add: round_ties_even_def Let_def)

lemma quantum_pos: "0 < quantum x"
  by (simp add: quantum_def pow2_pos)

lemma fl64_nonpos: "x \<le> 0 \<Longrightarrow> fl64 x \<le> 0"
proof -
  assume "x \<le> 0"
  then have "x / quantum x \<le> of_int 0"
    using quantum_pos [of x] by (simp add: divide_le_0_iff)
  then have "round_ties_even (x / quantum x) \<le> 0" by (rule round_ties_even_le)
  then have "of_int (round_ties_even (x / quantum x)) * quantum x \<le> 0"
    using quantum_pos [of x] by (simp add: mult_le_0_iff)
  then show ?thesis by (simp add: fl64_def)
qed

lemma fl64_nonneg: "0 \<le> x \<Longrightarrow> 0 \<le> fl64 x"
  using quantum_pos [of x] by (simp add: fl64_def round_ties_even_nonneg)

lemma quantum_normal: "- 1022 \<le> binary_exponent x \<Longrightarrow> quantum x = pow2 (binary_exponent x - 52)"
  by (simp add: quantum_def max_def)

text \<open>In the normal range the rounding error is at most half a unit in the last place.\<close>

lemma fl64_error:
  assumes "x \<noteq> 0" "- 1022 \<le> binary_exponent x"
  shows "\<bar>fl64 x - x\<bar> \<le> \<bar>x\<bar> / 2 ^ 53"
proof -
  define q where "q = quantum x"
  have q: "0 < q" by (simp add: q_def quantum_pos)
  have "pow2 (binary_exponent x) = pow2 (52 + (binary_exponent x - 52))" by simp
  also have "\<dots> = 2 ^ 52 * q"
    using assms(2) by (simp only: pow2_add q_def quantum_normal) (simp add: pow2_def)
  finally have "2 ^ 52 * q \<le> \<bar>x\<bar>"
    using binary_exponent_bounds [OF assms(1)] by simp
  then have qx: "q / 2 \<le> \<bar>x\<bar> / 2 ^ 53" by simp
  have "fl64 x - x = (of_int (round_ties_even (x / q)) - x / q) * q"
    using assms(1) q by (simp add: fl64_def q_def [symmetric] algebra_simps)
  then have "\<bar>fl64 x - x\<bar> = \<bar>of_int (round_ties_even (x / q)) - x / q\<bar> * q"
    using q by (simp add: abs_mult)
  also have "\<dots> \<le> 1 / 2 * q"
    using round_ties_even_error [of "x / q"] q by (intro mult_right_mono) simp_all
  finally show ?thesis using qx by simp
qed

text \<open>A double is a whole multiple of its quantum.\<close>

lemma is_double_multiple:
  assumes "is_double t"
  shows "t = of_int (round_ties_even (t / quantum t)) * quantum t"
  using assms round_ties_even_int [of 0]
  by (cases "t = 0") (simp_all add: is_double_def fl64_def)

text \<open>Rounding never passes a double: what lies below a double rounds to at most it.\<close>

lemma fl64_le_double:
  assumes "is_double t" "0 < x" "x \<le> t"
  shows "fl64 x \<le> t"
proof -
  define qx where "qx = quantum x"
  define a where "a = max (binary_exponent x) (- 1022) - 52"
  define b where "b = max (binary_exponent t) (- 1022) - 52"
  define m where "m = round_ties_even (t / quantum t)"
  have qx: "0 < qx" by (simp add: qx_def quantum_pos)
  from assms have "binary_exponent x \<le> binary_exponent t"
    by (intro binary_exponent_mono) auto
  then have ab: "a \<le> b" by (simp add: a_def b_def)
  have "quantum t = of_int (2 ^ nat (b - a)) * qx"
    using pow2_diff_int [OF ab] by (simp add: quantum_def qx_def a_def b_def)
  with is_double_multiple [OF assms(1)]
  have t: "t = of_int (m * 2 ^ nat (b - a)) * qx"
    by (simp add: m_def)
  with assms(3) qx have "x / qx \<le> of_int (m * 2 ^ nat (b - a))"
    by (simp add: pos_divide_le_eq)
  then have "round_ties_even (x / qx) \<le> m * 2 ^ nat (b - a)"
    by (rule round_ties_even_le)
  then have "(of_int (round_ties_even (x / qx)) :: rat) \<le> of_int (m * 2 ^ nat (b - a))"
    by (simp only: of_int_le_iff)
  then have "of_int (round_ties_even (x / qx)) * qx \<le> of_int (m * 2 ^ nat (b - a)) * qx"
    using qx by (intro mult_right_mono) simp_all
  with t assms(2) show ?thesis
    by (simp add: fl64_def qx_def)
qed

text \<open>What lies less than half a quantum above a normal double rounds back to it.\<close>

lemma fl64_just_above:
  assumes "is_double t" "0 < t" "- 1022 \<le> binary_exponent t"
    and "t \<le> x" "x < t + quantum t / 2"
  shows "fl64 x = t"
proof -
  define e where "e = binary_exponent t"
  define q where "q = quantum t"
  define m where "m = round_ties_even (t / q)"
  have q: "0 < q" by (simp add: q_def quantum_pos)
  have qe: "q = pow2 (e - 52)" using assms(3) by (simp add: q_def e_def quantum_normal)
  have t: "t = of_int m * q"
    using is_double_multiple [OF assms(1)] by (simp add: m_def q_def)
  from assms(5) have a5: "x < t + q / 2" by (simp add: q_def)
  from assms(2) have b: "pow2 e \<le> t" "t < pow2 (e + 1)"
    using binary_exponent_bounds [of t] by (simp_all add: e_def)
  have top: "pow2 (e + 1) = of_int (2 ^ 53) * q"
    using pow2_diff_int [of "e - 52" "e + 1"] by (simp add: qe)
  with b(2) t q have "(of_int m :: rat) < of_int (2 ^ 53)"
    by simp
  then have "m < 2 ^ 53" by (simp only: of_int_less_iff)
  then have "m + 1 \<le> 2 ^ 53" by simp
  then have "(of_int (m + 1) :: rat) \<le> of_int (2 ^ 53)" by (simp only: of_int_le_iff)
  then have "of_int (m + 1) * q \<le> of_int (2 ^ 53) * q"
    using q by (intro mult_right_mono) simp_all
  with t top have "t + q \<le> pow2 (e + 1)" by (simp add: algebra_simps)
  with a5 q have "x < pow2 (e + 1)" by simp
  moreover from b(1) assms(4) have "pow2 e \<le> x" by simp
  moreover from assms(2,4) have "0 < x" by simp
  ultimately have ex: "binary_exponent x = e"
    by (intro binary_exponent_unique) simp_all
  then have qx: "quantum x = q" using assms(3) by (simp add: quantum_normal qe e_def)
  have "of_int m \<le> x / q" using assms(4) t q by (simp add: pos_le_divide_eq)
  moreover have "x / q < of_int m + 1 / 2"
    using a5 t q by (simp add: pos_divide_less_eq algebra_simps)
  ultimately have "round_ties_even (x / q) = m" by (rule round_ties_even_near)
  with \<open>0 < x\<close> t show ?thesis by (simp add: fl64_def qx)
qed

lemma fl64_constants:
  "fl64 (9 / 10) = 8106479329266893 / 2 ^ 53"
  "fl64 (12 / 100) = 1080863910568919 / 2 ^ 53"
  by code_simp+

lemma binary_exponent_ge:
  assumes "pow2 e \<le> \<bar>x\<bar>"
  shows "e \<le> binary_exponent x"
proof -
  from assms pow2_pos [of e] have "x \<noteq> 0" by auto
  from binary_exponent_bounds [OF this] assms
  have "pow2 e < pow2 (binary_exponent x + 1)" by simp
  then show ?thesis by (simp add: pow2_less_iff)
qed

text \<open>
  The comparison of the last loop is exact: a double at or beyond nine tenths of the
  viewport height is never below the computed product.
\<close>

lemma threshold_exact:
  assumes "is_double t" "0 \<le> H" "of_int H * 9 / 10 \<le> t"
  shows "\<not> t < js_mul (of_int H) (fl64 (9 / 10))"
proof (cases "H = 0")
  case True
  with assms(3) show ?thesis by (simp add: js_mul_def fl64_def)
next
  case False
  with assms(2) have H: "1 \<le> H" by simp
  then have H': "(1::rat) \<le> of_int H" by simp
  define x :: rat where "x = of_int H * (8106479329266893 / 2 ^ 53)"
  have x: "0 < x" using H' by (simp add: x_def)
  from H' assms(3) have t: "9 / 10 \<le> t" by simp
  then have t0: "0 < t" by simp
  have "fl64 x \<le> t"
  proof (cases "x \<le> t")
    case True
    with assms(1) x show ?thesis by (intro fl64_le_double)
  next
    case False
    then have tx: "t \<le> x" by simp
    define e where "e = binary_exponent t"
    have "pow2 (- 1) \<le> \<bar>t\<bar>" using t by (simp add: pow2_def)
    then have e: "- 1 \<le> e" unfolding e_def by (rule binary_exponent_ge)
    then have n: "- 1022 \<le> binary_exponent t" by (simp add: e_def)
    have q: "quantum t = pow2 (e - 52)" using n by (simp add: quantum_normal e_def)
    have "pow2 (e + 1) = of_int (2 ^ 53) * pow2 (e - 52)"
      using pow2_diff_int [of "e - 52" "e + 1"] by simp
    with binary_exponent_bounds [of t] t0 have tq: "t < 2 ^ 53 * quantum t"
      by (simp add: q e_def)
    have "x = (of_int H * 9 / 10) * (1 + 2 / (9 * 2 ^ 53))"
      by (simp add: x_def)
    also have "\<dots> \<le> t * (1 + 2 / (9 * 2 ^ 53))"
      using assms(3) by (intro mult_right_mono) simp_all
    finally have "x - t \<le> t * (2 / (9 * 2 ^ 53))" by (simp add: algebra_simps)
    also have "\<dots> < (2 ^ 53 * quantum t) * (2 / (9 * 2 ^ 53))"
      using tq by (intro mult_strict_right_mono) simp_all
    also have "\<dots> = quantum t * (2 / 9)" by simp
    also have "\<dots> < quantum t / 2" using quantum_pos [of t] by simp
    finally have "x < t + quantum t / 2" by simp
    from fl64_just_above [OF assms(1) t0 n tx this] show ?thesis by simp
  qed
  then show ?thesis by (simp add: js_mul_def fl64_constants x_def)
qed

lemma round_near_whole:
  fixes y :: rat
  assumes "\<bar>y - of_int n * 3 / 25\<bar> < 1 / 50"
  shows "\<lfloor>y + 1 / 2\<rfloor> = \<lfloor>(of_int n * 3 / 25 :: rat) + 1 / 2\<rfloor>"
proof -
  define a where "a = 6 * n + 25"
  define k where "k = a div 50"
  define r where "r = a mod 50"
  have r: "1 \<le> r" "r \<le> 49" unfolding r_def a_def by presburger+
  have a: "a = 50 * k + r" by (simp add: k_def r_def)
  have z: "(of_int n * 3 / 25 :: rat) + 1 / 2 = of_int k + of_int r / 50"
  proof -
    have "(of_int n * 3 / 25 :: rat) + 1 / 2 = of_int a / 50" by (simp add: a_def)
    also have "\<dots> = of_int k + of_int r / 50" by (simp add: a)
    finally show ?thesis .
  qed
  have r': "(1::rat) \<le> of_int r" "(of_int r :: rat) \<le> 49" using r by simp_all
  have "\<lfloor>(of_int n * 3 / 25 :: rat) + 1 / 2\<rfloor> = k"
    unfolding z using r' by (intro floor_unique) simp_all
  moreover have "\<lfloor>y + 1 / 2\<rfloor> = k"
  proof (rule floor_unique)
    from assms have "of_int n * 3 / 25 + 1 / 2 - 1 / 50 < y + 1 / 2" by linarith
    with z r' show "of_int k \<le> y + 1 / 2" by simp
    from assms have "y + 1 / 2 < of_int n * 3 / 25 + 1 / 2 + 1 / 50" by linarith
    with z r' show "y + 1 / 2 < of_int k + 1" by simp
  qed
  ultimately show ?thesis by simp
qed

section \<open>Stagger delay\<close>

lemma Math_min_min: "Math_min a b = min a b"
  by (simp add: Math_min_def min_def)

lemma Math_max_max: "Math_max a b = max a b"
  by (simp add: Math_max_def max_def)

lemma Math_round_round: "Math_round x = round x"
  by (simp add: Math_round_def round_def)

lemma stagger_delay_formula:
  "stagger_delay d = min 300 (max 0 (round (js_mul d (fl64 (12 / 100)))))"
  by (simp only: stagger_delay_def Math_min_min Math_max_max Math_round_round)

text \<open>
  For a whole number of pixels the delay computed in binary64 is the delay of exact
  arithmetic.
\<close>

lemma stagger_delay_whole:
  "stagger_delay (of_int n) = min 300 (max 0 (round (of_int n * 12 / 100 :: rat)))"
proof -
  define C :: rat where "C = 1080863910568919 / 2 ^ 53"
  define x where "x = of_int n * C"
  define y where "y = fl64 x"
  define z :: rat where "z = of_int n * 3 / 25"
  have sd: "stagger_delay (of_int n) = min 300 (max 0 \<lfloor>y + 1 / 2\<rfloor>)"
  proof -
    have "stagger_delay (of_int n) = Math_min 300 (Math_max 0 (Math_round y))"
      by (simp only: stagger_delay_def js_mul_def fl64_constants y_def x_def C_def)
    then show ?thesis
      by (simp only: Math_min_min Math_max_max Math_round_def)
  qed
  have "(of_int n * 12 / 100 :: rat) = z" by (simp add: z_def)
  then have ex: "round (of_int n * 12 / 100 :: rat) = \<lfloor>z + 1 / 2\<rfloor>"
    by (simp only: round_def)
  consider "n \<le> 0" | "1 \<le> n" "n \<le> 1000000" | "1000000 < n" by linarith
  then have "min 300 (max 0 \<lfloor>y + 1 / 2\<rfloor>) = min 300 (max 0 \<lfloor>z + 1 / 2\<rfloor>)"
  proof cases
    case 1
    then have "x \<le> 0" by (simp add: x_def C_def mult_le_0_iff)
    then have "y \<le> 0" unfolding y_def by (rule fl64_nonpos)
    then have "\<lfloor>y + 1 / 2\<rfloor> \<le> 0" by (simp add: floor_le_iff)
    moreover from 1 have "z \<le> 0" by (simp add: z_def mult_le_0_iff)
    then have "\<lfloor>z + 1 / 2\<rfloor> \<le> 0" by (simp add: floor_le_iff)
    ultimately show ?thesis by simp
  next
    case 2
    then have n: "(1::rat) \<le> of_int n" "(of_int n :: rat) \<le> 1000000" by simp_all
    then have x: "0 < x" "C \<le> x" by (simp_all add: x_def C_def)
    have "pow2 (- 4) \<le> \<bar>x\<bar>" using x by (simp add: pow2_def C_def)
    then have "- 4 \<le> binary_exponent x" by (rule binary_exponent_ge)
    then have "\<bar>y - x\<bar> \<le> \<bar>x\<bar> / 2 ^ 53"
      unfolding y_def using x by (intro fl64_error) simp_all
    moreover have "x \<le> of_int n" using n by (simp add: x_def C_def)
    then have "\<bar>x\<bar> / 2 ^ 53 \<le> of_int n / 2 ^ 53"
      using x by (simp add: divide_right_mono)
    ultimately have e1: "\<bar>y - x\<bar> \<le> of_int n / 2 ^ 53" by (rule order_trans)
    have "z - x = of_int n / (25 * 2 ^ 53)" by (simp add: z_def x_def C_def)
    then have e2: "\<bar>x - z\<bar> = of_int n / (25 * 2 ^ 53)" using n by simp
    have "\<bar>y - z\<bar> \<le> \<bar>y - x\<bar> + \<bar>x - z\<bar>" by linarith
    with e1 e2 have "\<bar>y - z\<bar> \<le> of_int n / 2 ^ 53 + of_int n / (25 * 2 ^ 53)" by linarith
    also have "\<dots> < 1 / 50" using n by simp
    finally have "\<bar>y - of_int n * 3 / 25\<bar> < 1 / 50" by (simp add: z_def)
    then show ?thesis by (simp add: round_near_whole z_def)
  next
    case 3
    then have n: "(1000000::rat) < of_int n" by simp
    then have x: "0 < x" "100000 \<le> x" by (simp_all add: x_def C_def)
    have "pow2 (- 4) \<le> \<bar>x\<bar>" using x by (simp add: pow2_def)
    then have "- 4 \<le> binary_exponent x" by (rule binary_exponent_ge)
    then have "\<bar>y - x\<bar> \<le> \<bar>x\<bar> / 2 ^ 53"
      unfolding y_def using x by (intro fl64_error) simp_all
    moreover have "\<bar>x\<bar> / 2 ^ 53 \<le> x / 2" using x by simp
    ultimately have "\<bar>y - x\<bar> \<le> x / 2" by (rule order_trans)
    then have "x / 2 \<le> y" by linarith
    with x have "(of_int 301 :: rat) \<le> y + 1 / 2" by simp
    then have "301 \<le> \<lfloor>y + 1 / 2\<rfloor>" by (simp only: le_floor_iff)
    moreover from n have "(of_int 301 :: rat) \<le> z + 1 / 2" by (simp add: z_def)
    then have "301 \<le> \<lfloor>z + 1 / 2\<rfloor>" by (simp only: le_floor_iff)
    ultimately show ?thesis by simp
  qed
  with sd ex show ?thesis by simp
qed

text \<open>
  The same holds for every distance whose exact product with 0.12 keeps a margin of
  \<open>2^-40\<close> from every tie, the values half-way between two integers.
\<close>

lemma quarter_double: "is_double (1 / 4)"
  by code_simp

lemma stagger_delay_exact:
  assumes "1 / 2 ^ 40 \<le> frac (d * 12 / 100 + 1 / 2)"
    and "frac (d * 12 / 100 + 1 / 2) \<le> 1 - 1 / 2 ^ 40"
  shows "stagger_delay d = min 300 (max 0 (round (d * 12 / 100)))"
proof -
  define C :: rat where "C = 1080863910568919 / 2 ^ 53"
  define x where "x = d * C"
  define y where "y = fl64 x"
  define z :: rat where "z = d * 12 / 100"
  define m where "m = \<lfloor>z + 1 / 2\<rfloor>"
  have sd: "stagger_delay d = min 300 (max 0 \<lfloor>y + 1 / 2\<rfloor>)"
  proof -
    have "stagger_delay d = Math_min 300 (Math_max 0 (Math_round y))"
      by (simp only: stagger_delay_def js_mul_def fl64_constants y_def x_def C_def)
    then show ?thesis
      by (simp only: Math_min_min Math_max_max Math_round_def)
  qed
  have ex: "round (d * 12 / 100) = m"
    by (simp only: round_def m_def z_def)
  have fr: "z + 1 / 2 = of_int m + frac (z + 1 / 2)"
    by (simp add: frac_def m_def)
  consider "d \<le> 0" | "0 < d" "d < 1" | "1 \<le> d" "d \<le> 2600" | "2600 < d" by linarith
  then have "min 300 (max 0 \<lfloor>y + 1 / 2\<rfloor>) = min 300 (max 0 m)"
  proof cases
    case 1
    then have "x \<le> 0" by (simp add: x_def C_def mult_le_0_iff)
    then have "y \<le> 0" unfolding y_def by (rule fl64_nonpos)
    then have "\<lfloor>y + 1 / 2\<rfloor> \<le> 0" by (simp add: floor_le_iff)
    moreover from 1 have "z \<le> 0" by (simp add: z_def mult_le_0_iff)
    then have "m \<le> 0" by (simp add: m_def floor_le_iff)
    ultimately show ?thesis by simp
  next
    case 2
    then have x: "0 < x" "x \<le> 1 / 4" by (simp_all add: x_def C_def)
    from fl64_le_double [OF quarter_double x] have "y \<le> 1 / 4" by (simp add: y_def)
    moreover from x have "0 \<le> y" unfolding y_def by (intro fl64_nonneg) simp
    ultimately have "\<lfloor>y + 1 / 2\<rfloor> = 0" by (intro floor_unique) simp_all
    moreover from 2 have "0 < z" "z < 1 / 2" by (simp_all add: z_def)
    then have "m = 0" unfolding m_def by (intro floor_unique) simp_all
    ultimately show ?thesis by simp
  next
    case 3
    then have x: "0 < x" "C \<le> x" "x \<le> d" by (simp_all add: x_def C_def)
    have "pow2 (- 4) \<le> \<bar>x\<bar>" using x by (simp add: pow2_def C_def)
    then have "- 4 \<le> binary_exponent x" by (rule binary_exponent_ge)
    then have "\<bar>y - x\<bar> \<le> \<bar>x\<bar> / 2 ^ 53"
      unfolding y_def using x by (intro fl64_error) simp_all
    moreover have "\<bar>x\<bar> / 2 ^ 53 \<le> d / 2 ^ 53"
      using x by (simp add: divide_right_mono)
    ultimately have e1: "\<bar>y - x\<bar> \<le> d / 2 ^ 53" by (rule order_trans)
    have "z - x = d / (25 * 2 ^ 53)" by (simp add: z_def x_def C_def)
    then have e2: "\<bar>x - z\<bar> = d / (25 * 2 ^ 53)" using 3 by simp
    have "\<bar>y - z\<bar> \<le> \<bar>y - x\<bar> + \<bar>x - z\<bar>" by linarith
    with e1 e2 have "\<bar>y - z\<bar> \<le> d / 2 ^ 53 + d / (25 * 2 ^ 53)" by linarith
    also have "\<dots> < 1 / 2 ^ 40" using 3 by simp
    finally have near: "\<bar>y - z\<bar> < 1 / 2 ^ 40" .
    from assms have f: "1 / 2 ^ 40 \<le> frac (z + 1 / 2)" "frac (z + 1 / 2) \<le> 1 - 1 / 2 ^ 40"
      by (simp_all only: z_def)
    have "\<lfloor>y + 1 / 2\<rfloor> = m"
    proof (rule floor_unique)
      from near fr f(1) show "of_int m \<le> y + 1 / 2" by linarith
      from near fr f(2) show "y + 1 / 2 < of_int m + 1" by linarith
    qed
    then show ?thesis by simp
  next
    case 4
    then have x: "0 < x" "311 \<le> x" by (simp_all add: x_def C_def)
    have "pow2 (- 4) \<le> \<bar>x\<bar>" using x by (simp add: pow2_def)
    then have "- 4 \<le> binary_exponent x" by (rule binary_exponent_ge)
    then have "\<bar>y - x\<bar> \<le> \<bar>x\<bar> / 2 ^ 53"
      unfolding y_def using x by (intro fl64_error) simp_all
    moreover have "\<bar>x\<bar> / 2 ^ 53 \<le> x / 1000" using x by simp
    ultimately have "\<bar>y - x\<bar> \<le> x / 1000" by (rule order_trans)
    then have "x - x / 1000 \<le> y" by linarith
    with x have "(of_int 301 :: rat) \<le> y + 1 / 2" by simp
    then have "301 \<le> \<lfloor>y + 1 / 2\<rfloor>" by (simp only: le_floor_iff)
    moreover from 4 have "(of_int 301 :: rat) \<le> z + 1 / 2" by (simp add: z_def)
    then have "301 \<le> m" by (simp only: le_floor_iff m_def)
    ultimately show ?thesis by simp
  qed
  with sd ex show ?thesis by simp
qed

text \<open>
  C6, as stated, fails: for the distance 70.83333333333333 the exact product with 0.12
  lies just below 8.5 and rounds to 8, but the binary64 product of the script is 8.5 and
  \<open>Math.round\<close> gives 9.
\<close>

theorem stagger_delay_counterexample:
  "Node 0 \<in> set (reveal_els tie_env) \<and> \<not> prefersReduced tie_env \<and>
   is_double (rect_top tie_env (Node 0)) \<and>
   transitionDelay (startup tie_env fresh_page) (Node 0) = js ''9ms'' \<and>
   number_to_string (min 300 (max 0 (round (rect_top tie_env (Node 0) * 12 / 100)))) @ js ''ms'' =
     js ''8ms''"
  by code_simp

text \<open>
  C6, amended. When motion is allowed, every reveal candidate leaves the script observed
  and with the transition delay \<open>min(300, max(0, round(d * 0.12)))\<close> milliseconds, where
  \<open>d\<close> is the top of its bounding rectangle, the product is the binary64 product of the
  script and \<open>round\<close> rounds a tie upwards. The delay is the one of exact arithmetic
  whenever the exact product keeps a margin of \<open>2^-40\<close> from every tie, and so for every
  whole number of pixels.
\<close>

theorem stagger_delay_assigned:
  assumes "\<not> prefersReduced v" and "el \<in> set (reveal_els v)"
  shows "transitionDelay (startup v s) el =
           number_to_string (min 300 (max 0 (round (js_mul (rect_top v el) (fl64 (12 / 100)))))) @
           js ''ms'' \<and>
         (1 / 2 ^ 40 \<le> frac (rect_top v el * 12 / 100 + 1 / 2) \<and>
          frac (rect_top v el * 12 / 100 + 1 / 2) \<le> 1 - 1 / 2 ^ 40 \<longrightarrow>
            transitionDelay (startup v s) el =
              number_to_string (min 300 (max 0 (round (rect_top v el * 12 / 100)))) @ js ''ms'') \<and>
         (\<forall>n. rect_top v el = of_int n \<longrightarrow>
            transitionDelay (startup v s) el =
              number_to_string (min 300 (max 0 (round (of_int n * 12 / 100 :: rat)))) @ js ''ms'') \<and>
         (\<exists>ob. observer (startup v s) = Some ob \<and> el \<in> set (io_targets ob))"
proof (intro conjI allI impI)
  from assms have d: "transitionDelay (startup v s) el =
      number_to_string (stagger_delay (rect_top v el)) @ js ''ms''"
    by (simp add: startup_observer foldl_upd_last)
  then show "transitionDelay (startup v s) el =
           number_to_string (min 300 (max 0 (round (js_mul (rect_top v el) (fl64 (12 / 100)))))) @
           js ''ms''"
    by (simp only: stagger_delay_formula)
  {
    assume "1 / 2 ^ 40 \<le> frac (rect_top v el * 12 / 100 + 1 / 2) \<and>
          frac (rect_top v el * 12 / 100 + 1 / 2) \<le> 1 - 1 / 2 ^ 40"
    then have "stagger_delay (rect_top v el) = min 300 (max 0 (round (rect_top v el * 12 / 100)))"
      by (intro stagger_delay_exact) simp_all
    with d show "transitionDelay (startup v s) el =
              number_to_string (min 300 (max 0 (round (rect_top v el * 12 / 100)))) @ js ''ms''"
      by (simp only:)
  }
  fix n
  assume "rect_top v el = of_int n"
  with d show "transitionDelay (startup v s) el =
      number_to_string (min 300 (max 0 (round (of_int n * 12 / 100 :: rat)))) @ js ''ms''"
    by (simp only: stagger_delay_whole)
next
  from assms show "\<exists>ob. observer (startup v s) = Some ob \<and> el \<in> set (io_targets ob)"
    by (simp add: startup_observer set_foldl_set_append)
qed

theorem stagger_delay_assigned_witness:
  "transitionDelay (startup sample_env fresh_page) (Node 0) = js ''12ms'' \<and>
   transitionDelay (startup sample_env fresh_page) (Node 1) = js ''120ms'' \<and>
   number_to_string (min 300 (max 0 (round (rect_top sample_env (Node 0) * 12 / 100)))) = js ''12'' \<and>
   number_to_string (min 300 (max 0 (round (of_int 1000 * 12 / 100 :: rat)))) = js ''120''"
proof -
  have w: "rect_top sample_env (Node 1) = of_int 1000"
    by (simp add: sample_env_def)
  have h: "\<not> prefersReduced sample_env" "Node 0 \<in> set (reveal_els sample_env)"
    "Node 1 \<in> set (reveal_els sample_env)"
    by (simp_all add: sample_env_def)
  have c: "number_to_string (min 300 (max 0 (round (js_mul (rect_top sample_env (Node 0)) (fl64 (12 / 100)))))) = js ''12''"
    "number_to_string (min 300 (max 0 (round (js_mul (rect_top sample_env (Node 1)) (fl64 (12 / 100)))))) = js ''120''"
    by code_simp+
  have m: "1 / 2 ^ 40 \<le> frac (rect_top sample_env (Node 0) * 12 / 100 + 1 / 2) \<and>
          frac (rect_top sample_env (Node 0) * 12 / 100 + 1 / 2) \<le> 1 - 1 / 2 ^ 40"
    by code_simp
  from stagger_delay_assigned [OF h(1,2), of fresh_page]
  have "transitionDelay (startup sample_env fresh_page) (Node 0) =
      number_to_string (min 300 (max 0 (round (js_mul (rect_top sample_env (Node 0)) (fl64 (12 / 100)))))) @
      js ''ms''"
    by (rule conjunct1)
  then have a: "transitionDelay (startup sample_env fresh_page) (Node 0) = js ''12'' @ js ''ms''"
    by (simp only: c)
  from stagger_delay_assigned [OF h(1,2), of fresh_page] m
  have "transitionDelay (startup sample_env fresh_page) (Node 0) =
      number_to_string (min 300 (max 0 (round (rect_top sample_env (Node 0) * 12 / 100)))) @ js ''ms''"
    by blast
  with a have e: "number_to_string (min 300 (max 0 (round (rect_top sample_env (Node 0) * 12 / 100)))) =
      js ''12''"
    by simp
  from stagger_delay_assigned [OF h(1,3), of fresh_page]
  have "transitionDelay (startup sample_env fresh_page) (Node 1) =
      number_to_string (min 300 (max 0 (round (js_mul (rect_top sample_env (Node 1)) (fl64 (12 / 100)))))) @
      js ''ms''"
    by (rule conjunct1)
  then have b: "transitionDelay (startup sample_env fresh_page) (Node 1) = js ''120'' @ js ''ms''"
    by (simp only: c)
  from stagger_delay_assigned [OF h(1,3), of fresh_page] w
  have "transitionDelay (startup sample_env fresh_page) (Node 1) =
      number_to_string (min 300 (max 0 (round (of_int 1000 * 12 / 100 :: rat)))) @ js ''ms''"
    by blast
  with b have g: "number_to_string (min 300 (max 0 (round (of_int 1000 * 12 / 100 :: rat)))) = js ''120''"
    by (simp only: append_same_eq)
  from a b e have "transitionDelay (startup sample_env fresh_page) (Node 0) = js ''12ms'' \<and>
   transitionDelay (startup sample_env fresh_page) (Node 1) = js ''120ms'' \<and>
   number_to_string (min 300 (max 0 (round (rect_top sample_env (Node 0) * 12 / 100)))) = js ''12''"
    by (simp add: js_def)
  with g show ?thesis
    by (simp only: simp_thms)
qed

section \<open>Frames of the handlers\<close>

lemma focus_element_fields:
  "listeners (focus_element el s) = listeners s"
  "ringAnim (focus_element el s) = ringAnim s"
  "observer (focus_element el s) = observer s"
  "ring_animations (focus_element el s) = ring_animations s"
  "className (focus_element el s) = className s"
  "timers (focus_element el s) = timers s"
  "next_timer (focus_element el s) = next_timer s"
  using focus_element_frame [of el s] by auto

lemma submit_handler_fields:
  "listeners (submit_handler s) = listeners s"
  "ringAnim (submit_handler s) = ringAnim s"
  "observer (submit_handler s) = observer s"
  "ring_animations (submit_handler s) = ring_animations s"
  "className (submit_handler s) = className s"
  by (simp_all add: submit_handler_def Let_def setTimeout_def focus_element_fields)

lemma submit_handler_timers:
  "(timers (submit_handler s) = timers s \<and> next_timer (submit_handler s) = next_timer s) \<or>
   (\<exists>n e m. timers (submit_handler s) = (timers s)(next_timer s \<mapsto> Timeout 900 (SubmitDone n e m)) \<and>
      next_timer (submit_handler s) = next_timer s + 1)"
proof (cases "length (trim (name_value s)) < 2 \<or>
    \<not> regex_match email_pattern (trim (email_value s)) \<or> length (trim (message_value s)) < 10")
  case True
  then have "timers (submit_handler s) = timers s \<and> next_timer (submit_handler s) = next_timer s"
    by (auto simp: submit_handler_def Let_def focus_element_fields)
  then show ?thesis ..
next
  case False
  then have "timers (submit_handler s) =
      (timers s)(next_timer s \<mapsto> Timeout 900 (SubmitDone (trim (name_value s))
        (trim (email_value s)) (trim (message_value s)))) \<and>
      next_timer (submit_handler s) = next_timer s + 1"
    by (simp add: submit_handler_def Let_def setTimeout_def)
  then show ?thesis by blast
qed

lemma theme_toggle_fields:
  "listeners (theme_toggle_click s) = listeners s"
  "ringAnim (theme_toggle_click s) = ringAnim s"
  "observer (theme_toggle_click s) = observer s"
  "ring_animations (theme_toggle_click s) = ring_animations s"
  "timers (theme_toggle_click s) = timers s"
  "next_timer (theme_toggle_click s) = next_timer s"
  by (simp_all add: theme_toggle_click_def Let_def split: prod.split)

lemma reset_click_fields:
  "listeners (reset_click s) = listeners s"
  "ringAnim (reset_click s) = ringAnim s"
  "observer (reset_click s) = observer s"
  "ring_animations (reset_click s) = ring_animations s"
  "className (reset_click s) = className s"
  "timers (reset_click s) = timers s"
  "next_timer (reset_click s) = next_timer s"
  by (simp_all add: reset_click_def focus_element_fields)

lemma clear_ring_pulse_fields:
  "listeners (clear_ring_pulse s) = listeners s"
  "ringAnim (clear_ring_pulse s) = ringAnim s"
  "observer (clear_ring_pulse s) = observer s"
  "ring_animations (clear_ring_pulse s) = ring_animations s"
  "className (clear_ring_pulse s) = className s"
  "next_timer (clear_ring_pulse s) = next_timer s"
  by (simp_all add: clear_ring_pulse_def clearInterval_def split: option.split)

lemma run_handler_fields:
  "listeners (run_handler s h) = listeners s"
  "ringAnim (run_handler s h) = ringAnim s"
  "observer (run_handler s h) = observer s"
  "ring_animations (run_handler s h) = ring_animations s"
  by (cases h; simp add: submit_handler_fields theme_toggle_fields reset_click_fields
      clear_ring_pulse_fields)+

lemma run_handler_no_pulse:
  "\<not> pulse_pending s \<Longrightarrow> \<not> pulse_pending (run_handler s h)"
proof (cases h)
  case HSubmit
  assume "\<not> pulse_pending s"
  with submit_handler_timers [of s] HSubmit show ?thesis
    by (auto simp: pulse_pending_def pulse_timer_def split: if_splits)
next
  case HClearRingPulse
  assume "\<not> pulse_pending s"
  with HClearRingPulse show ?thesis
    by (auto simp: pulse_pending_def pulse_timer_def clear_ring_pulse_def clearInterval_def
        split: option.splits if_splits)
qed (simp_all add: pulse_pending_def theme_toggle_fields reset_click_fields)

lemma foldl_run_handler_no_pulse:
  "\<not> pulse_pending s \<Longrightarrow>
     \<not> pulse_pending (foldl run_handler s hs) \<and>
     ring_animations (foldl run_handler s hs) = ring_animations s"
  by (induction hs arbitrary: s) (simp_all add: run_handler_no_pulse run_handler_fields)

lemma submit_done_fields:
  "listeners (submit_done n e m s) = listeners s"
  "ringAnim (submit_done n e m s) = ringAnim s"
  "observer (submit_done n e m s) = observer s"
  "ring_animations (submit_done n e m s) = ring_animations s"
  "className (submit_done n e m s) = className s"
  "timers (submit_done n e m s) = timers s"
  "next_timer (submit_done n e m s) = next_timer s"
  by (simp_all add: submit_done_def Let_def split: sum.split)

lemma fire_no_pulse:
  "\<not> pulse_pending s \<Longrightarrow>
     \<not> pulse_pending (fire i s) \<and> ring_animations (fire i s) = ring_animations s"
proof -
  assume n: "\<not> pulse_pending s"
  show ?thesis
  proof (cases "timers s i")
    case None
    with n show ?thesis by (simp add: fire_def)
  next
    case (Some t)
    from n have p: "\<not> pulse_timer (timers s j)" for j
      by (auto simp: pulse_pending_def)
    show ?thesis
    proof (cases t)
      case (Timeout ms cb)
      with Some p [of i] obtain a b c where cb: "cb = SubmitDone a b c"
        by (cases cb) (auto simp: pulse_timer_def)
      with Some Timeout p show ?thesis
        by (auto simp: fire_def submit_done_fields pulse_pending_def pulse_timer_def)
    next
      case (Interval ms cb)
      with Some p [of i] obtain a b c where cb: "cb = SubmitDone a b c"
        by (cases cb) (auto simp: pulse_timer_def)
      with Some Interval p show ?thesis
        by (auto simp: fire_def submit_done_fields pulse_pending_def pulse_timer_def)
    qed
  qed
qed

lemma add_class_fields:
  "listeners (add_class el t s) = listeners s"
  "ringAnim (add_class el t s) = ringAnim s"
  "observer (add_class el t s) = observer s"
  "ring_animations (add_class el t s) = ring_animations s"
  "timers (add_class el t s) = timers s"
  "next_timer (add_class el t s) = next_timer s"
  by (simp_all add: add_class_def)

lemma unobserve_fields:
  "listeners (unobserve el s) = listeners s"
  "ringAnim (unobserve el s) = ringAnim s"
  "ring_animations (unobserve el s) = ring_animations s"
  "className (unobserve el s) = className s"
  "timers (unobserve el s) = timers s"
  "next_timer (unobserve el s) = next_timer s"
  by (simp_all add: unobserve_def split: option.split)

lemma reveal_callback_fields:
  "listeners (reveal_callback es s) = listeners s"
  "ringAnim (reveal_callback es s) = ringAnim s"
  "ring_animations (reveal_callback es s) = ring_animations s"
  "timers (reveal_callback es s) = timers s"
  "next_timer (reveal_callback es s) = next_timer s"
  unfolding reveal_callback_def
  by (induction es arbitrary: s; simp add: reveal_entry_def add_class_fields unobserve_fields)+

lemma step_no_pulse:
  "\<not> pulse_pending s \<Longrightarrow>
     \<not> pulse_pending (step s i) \<and> ring_animations (step s i) = ring_animations s"
proof (cases i)
  case (Dispatch t e)
  assume "\<not> pulse_pending s"
  with Dispatch show ?thesis
    by (simp add: dispatch_def foldl_run_handler_no_pulse)
next
  case (Fire j)
  assume "\<not> pulse_pending s"
  with Fire show ?thesis
    by (simp add: fire_no_pulse)
next
  case (Intersect es)
  assume "\<not> pulse_pending s"
  with Intersect show ?thesis
    by (simp add: pulse_pending_def reveal_callback_fields split: option.split)
qed

lemma run_no_pulse:
  "\<not> pulse_pending s \<Longrightarrow>
     \<not> pulse_pending (run ins s) \<and> ring_animations (run ins s) = ring_animations s"
  unfolding run_def
  by (induction ins arbitrary: s) (simp_all add: step_no_pulse)

section \<open>The idle pulse\<close>

lemma pulse_timer_simps:
  "\<not> pulse_timer None"
  "\<not> pulse_timer (Some (Timeout ms (SubmitDone a b c)))"
  "\<not> pulse_timer (Some (Interval ms (SubmitDone a b c)))"
  "pulse_timer (Some (Interval ms RingPulse))"
  "pulse_timer (Some (Timeout ms RingPulse))"
  by (simp_all add: pulse_timer_def)

lemma foldl_run_handler_fields:
  "listeners (foldl run_handler s hs) = listeners s"
  "ringAnim (foldl run_handler s hs) = ringAnim s"
  "observer (foldl run_handler s hs) = observer s"
  "ring_animations (foldl run_handler s hs) = ring_animations s"
  by (induction hs arbitrary: s; simp add: run_handler_fields)+

lemma run_handler_keeps_pulse:
  assumes "pulse_running i s"
  shows "h \<noteq> HClearRingPulse \<longrightarrow> pulse_running i (run_handler s h)"
    and "ringAnim (run_handler s h) = Some i \<and>
         (\<forall>j. j \<noteq> i \<longrightarrow> \<not> pulse_timer (timers (run_handler s h) j))"
proof -
  have sub: "pulse_running i (submit_handler s)"
    using assms submit_handler_timers [of s]
    by (auto simp: pulse_running_def submit_handler_fields pulse_timer_simps split: if_splits)
  show "h \<noteq> HClearRingPulse \<longrightarrow> pulse_running i (run_handler s h)"
    using assms sub
    by (cases h) (simp_all add: pulse_running_def theme_toggle_fields reset_click_fields)
  have clr: "ringAnim (clear_ring_pulse s) = Some i \<and>
         (\<forall>j. j \<noteq> i \<longrightarrow> \<not> pulse_timer (timers (clear_ring_pulse s) j))"
    using assms by (simp add: pulse_running_def clear_ring_pulse_def clearInterval_def)
  show "ringAnim (run_handler s h) = Some i \<and>
         (\<forall>j. j \<noteq> i \<longrightarrow> \<not> pulse_timer (timers (run_handler s h) j))"
    using assms sub clr
    by (cases h) (simp_all add: pulse_running_def theme_toggle_fields reset_click_fields)
qed

lemma clear_ring_pulse_stops:
  "pulse_running i s \<Longrightarrow> \<not> pulse_pending (clear_ring_pulse s)"
  by (auto simp: pulse_running_def pulse_pending_def clear_ring_pulse_def clearInterval_def
      pulse_timer_def)

lemma foldl_keeps_pulse:
  "pulse_running i s \<Longrightarrow> HClearRingPulse \<notin> set hs \<Longrightarrow>
     pulse_running i (foldl run_handler s hs) \<and>
     ring_animations (foldl run_handler s hs) = ring_animations s \<and>
     listeners (foldl run_handler s hs) = listeners s"
proof (induction hs arbitrary: s)
  case Nil
  then show ?case by simp
next
  case (Cons h hs)
  from Cons.prems run_handler_keeps_pulse(1) [of i s h]
  have "pulse_running i (run_handler s h)" by auto
  with Cons.IH [of "run_handler s h"] Cons.prems show ?case
    by (simp add: run_handler_fields)
qed

lemma foldl_blur_stops:
  "pulse_running i s \<Longrightarrow> HClearRingPulse \<in> set hs \<Longrightarrow>
     \<not> pulse_pending (foldl run_handler s hs) \<and>
     ring_animations (foldl run_handler s hs) = ring_animations s \<and>
     listeners (foldl run_handler s hs) = listeners s"
proof (induction hs arbitrary: s)
  case Nil
  then show ?case by simp
next
  case (Cons h hs)
  show ?case
  proof (cases "h = HClearRingPulse")
    case True
    with Cons.prems have "\<not> pulse_pending (run_handler s h)"
      by (simp add: clear_ring_pulse_stops)
    from foldl_run_handler_no_pulse [OF this, of hs] show ?thesis
      by (simp add: run_handler_fields foldl_run_handler_fields)
  next
    case False
    with Cons.prems run_handler_keeps_pulse(1) [of i s h]
    have "pulse_running i (run_handler s h)" "HClearRingPulse \<in> set hs" by auto
    with Cons.IH [of "run_handler s h"] show ?thesis
      by (simp add: run_handler_fields)
  qed
qed

lemma fire_pulse_plays:
  "pulse_running i s \<Longrightarrow> fire i s = s\<lparr>ring_animations := ring_animations s + 1\<rparr>"
  by (simp add: pulse_running_def fire_def)

lemma fire_keeps_pulse:
  assumes "pulse_running i s"
  shows "pulse_running i (fire j s) \<and> listeners (fire j s) = listeners s"
proof (cases "j = i")
  case True
  with assms fire_pulse_plays [OF assms] show ?thesis
    by (simp add: pulse_running_def)
next
  case False
  with assms have np: "\<not> pulse_timer (timers s j)"
    by (simp add: pulse_running_def)
  show ?thesis
  proof (cases "timers s j")
    case None
    with assms show ?thesis by (simp add: fire_def)
  next
    case (Some t)
    show ?thesis
    proof (cases t)
      case (Timeout ms cb)
      with Some np obtain a b c where "cb = SubmitDone a b c"
        by (cases cb) (auto simp: pulse_timer_simps)
      with Some Timeout assms False show ?thesis
        by (auto simp: fire_def submit_done_fields pulse_running_def pulse_timer_simps)
    next
      case (Interval ms cb)
      with Some np obtain a b c where "cb = SubmitDone a b c"
        by (cases cb) (auto simp: pulse_timer_simps)
      with Some Interval assms False show ?thesis
        by (auto simp: fire_def submit_done_fields pulse_running_def)
    qed
  qed
qed

lemma step_keeps_pulse:
  assumes "pulse_running i s"
    and "\<forall>l\<in>set (listeners s). snd (snd l) = HClearRingPulse \<longrightarrow> fst l = Window \<and> fst (snd l) = Blur"
    and "inp \<noteq> Dispatch Window Blur"
  shows "pulse_running i (step s inp) \<and> listeners (step s inp) = listeners s"
proof (cases inp)
  case (Dispatch t e)
  with assms(3) have "t \<noteq> Window \<or> e \<noteq> Blur" by simp
  with assms(2) have "HClearRingPulse \<notin> set (handlers_for t e s)"
    by (auto simp: handlers_for_def)
  from foldl_keeps_pulse [OF assms(1) this] Dispatch show ?thesis
    by (simp add: dispatch_def)
next
  case (Fire j)
  with fire_keeps_pulse [OF assms(1), of j] show ?thesis by simp
next
  case (Intersect es)
  with assms(1) show ?thesis
    by (simp add: pulse_running_def reveal_callback_fields split: option.split)
qed

lemma run_keeps_pulse:
  "pulse_running i s \<Longrightarrow>
   \<forall>l\<in>set (listeners s). snd (snd l) = HClearRingPulse \<longrightarrow> fst l = Window \<and> fst (snd l) = Blur \<Longrightarrow>
   Dispatch Window Blur \<notin> set ins \<Longrightarrow>
     pulse_running i (run ins s) \<and> listeners (run ins s) = listeners s"
proof (induction ins arbitrary: s)
  case Nil
  then show ?case by (simp add: run_def)
next
  case (Cons inp ins)
  from Cons.prems have "inp \<noteq> Dispatch Window Blur" by auto
  from step_keeps_pulse [OF Cons.prems(1,2) this]
  have 1: "pulse_running i (step s inp)" "listeners (step s inp) = listeners s" by simp_all
  with Cons.IH [of "step s inp"] Cons.prems show ?case
    by (simp add: run_def)
qed

lemma blur_stops_pulse:
  assumes "pulse_running i s" and "(Window, Blur, HClearRingPulse) \<in> set (listeners s)"
  shows "\<not> pulse_pending (step s (Dispatch Window Blur)) \<and>
         ring_animations (step s (Dispatch Window Blur)) = ring_animations s"
proof -
  from assms(2) have "HClearRingPulse \<in> set (handlers_for Window Blur s)"
    by (force simp: handlers_for_def)
  from foldl_blur_stops [OF assms(1) this] show ?thesis
    by (simp add: dispatch_def)
qed

lemma startup_pulse_running:
  assumes "cursor_present v" "\<not> isTouch v" "\<not> prefersReduced v" "\<not> pulse_pending s"
  shows "pulse_running (next_timer s) (startup v s)"
  using assms by (auto simp: pulse_running_def startup_timers pulse_pending_def)

lemma startup_blur_listener:
  assumes "cursor_present v" "\<not> isTouch v" "\<not> prefersReduced v" "listeners s = []"
  shows "(Window, Blur, HClearRingPulse) \<in> set (listeners (startup v s))"
    and "\<forall>l\<in>set (listeners (startup v s)).
           snd (snd l) = HClearRingPulse \<longrightarrow> fst l = Window \<and> fst (snd l) = Blur"
  using assms by (auto simp: startup_listeners)

text \<open>
  C9, as stated, fails: the script starts the pulse once and registers no listener for
  the window regaining focus. After a blur and a refocus the timer is gone and, when the
  3.2 seconds have passed, nothing plays.
\<close>

theorem ring_pulse_counterexample:
  "timers (startup sample_env fresh_page) 1 = Some (Interval 3200 RingPulse) \<and>
   timers (run [Dispatch Window Blur, Dispatch Window Focus] (startup sample_env fresh_page)) 1 = None \<and>
   ring_animations
     (run [Dispatch Window Blur, Dispatch Window Focus, Fire 1] (startup sample_env fresh_page)) = 0"
  by code_simp

text \<open>
  C9, amended. When the cursor follower is enabled, the script starts a recurring timer
  with a period of 3200 ms whose callback plays the pulse on the ring. Until the window
  first loses focus, whatever else happens, the timer stays in the table and each time
  it comes due one animation plays and the timer stays. When the window loses focus the
  timer is cleared, and from then on, whatever happens (the window regaining focus
  included), no timer plays the pulse and no further animation plays.
\<close>

theorem ring_pulse:
  assumes "cursor_present v" and "\<not> isTouch v" and "\<not> prefersReduced v"
    and "listeners s = []" and "\<not> pulse_pending s"
  shows "timers (startup v s) (next_timer s) = Some (Interval 3200 RingPulse) \<and>
    (\<forall>ins. Dispatch Window Blur \<notin> set ins \<longrightarrow>
       timers (run ins (startup v s)) (next_timer s) = Some (Interval 3200 RingPulse) \<and>
       fire (next_timer s) (run ins (startup v s)) =
         (run ins (startup v s))\<lparr>ring_animations := ring_animations (run ins (startup v s)) + 1\<rparr> \<and>
       \<not> pulse_pending (step (run ins (startup v s)) (Dispatch Window Blur)) \<and>
       (\<forall>more.
          \<not> pulse_pending (run more (step (run ins (startup v s)) (Dispatch Window Blur))) \<and>
          ring_animations (run more (step (run ins (startup v s)) (Dispatch Window Blur))) =
            ring_animations (run ins (startup v s))))"
proof (intro conjI allI impI)
  note p = startup_pulse_running [OF assms(1-3,5)]
  note l = startup_blur_listener [OF assms(1-4)]
  from p show "timers (startup v s) (next_timer s) = Some (Interval 3200 RingPulse)"
    by (simp add: pulse_running_def)
  fix ins
  assume "Dispatch Window Blur \<notin> set ins"
  from run_keeps_pulse [OF p l(2) this]
  have r: "pulse_running (next_timer s) (run ins (startup v s))"
    "listeners (run ins (startup v s)) = listeners (startup v s)" by simp_all
  from r(1) show "timers (run ins (startup v s)) (next_timer s) = Some (Interval 3200 RingPulse)"
    by (simp add: pulse_running_def)
  from r(1) show "fire (next_timer s) (run ins (startup v s)) =
         (run ins (startup v s))\<lparr>ring_animations := ring_animations (run ins (startup v s)) + 1\<rparr>"
    by (rule fire_pulse_plays)
  from l(1) r(2) have "(Window, Blur, HClearRingPulse) \<in> set (listeners (run ins (startup v s)))"
    by simp
  from blur_stops_pulse [OF r(1) this]
  have b: "\<not> pulse_pending (step (run ins (startup v s)) (Dispatch Window Blur))"
    "ring_animations (step (run ins (startup v s)) (Dispatch Window Blur)) =
       ring_animations (run ins (startup v s))" by simp_all
  from b(1) show "\<not> pulse_pending (step (run ins (startup v s)) (Dispatch Window Blur))" .
  fix more
  from run_no_pulse [OF b(1), of more] b(2)
  show "\<not> pulse_pending (run more (step (run ins (startup v s)) (Dispatch Window Blur)))"
    and "ring_animations (run more (step (run ins (startup v s)) (Dispatch Window Blur))) =
            ring_animations (run ins (startup v s))"
    by simp_all
qed

theorem ring_pulse_witness:
  "timers (startup sample_env fresh_page) 1 = Some (Interval 3200 RingPulse) \<and>
   ring_animations (fire 1 (startup sample_env fresh_page)) = 1 \<and>
   ring_animations
     (run [Dispatch Window Focus, Fire 1] (step (startup sample_env fresh_page) (Dispatch Window Blur))) = 0"
proof -
  have h: "cursor_present sample_env" "\<not> isTouch sample_env" "\<not> prefersReduced sample_env"
    "listeners fresh_page = []"
    by (simp_all add: sample_env_def isTouch_def fresh_page_def)
  have n: "\<not> pulse_pending fresh_page"
    by (simp add: pulse_pending_def fresh_page_def pulse_timer_def)
  have i: "next_timer fresh_page = 1" "ring_animations (startup sample_env fresh_page) = 0"
    by (simp_all add: fresh_page_def startup_timers)
  have e: "Dispatch Window Blur \<notin> set []" by simp
  from ring_pulse [OF h n] e
  have "timers (startup sample_env fresh_page) (next_timer fresh_page) = Some (Interval 3200 RingPulse)"
    and "fire (next_timer fresh_page) (run [] (startup sample_env fresh_page)) =
         (run [] (startup sample_env fresh_page))\<lparr>ring_animations :=
            ring_animations (run [] (startup sample_env fresh_page)) + 1\<rparr>"
    and "ring_animations (run [Dispatch Window Focus, Fire 1]
           (step (run [] (startup sample_env fresh_page)) (Dispatch Window Blur))) =
         ring_animations (run [] (startup sample_env fresh_page))"
    by blast+
  then show ?thesis
    by (simp add: i run_def)
qed


section \<open>Reveal at most once\<close>

lemma revealed_not_theme:
  "js ''revealed'' \<noteq> theme_dark" "js ''revealed'' \<noteq> theme_light"
  by code_simp+

lemma run_handler_revealed: "revealed el s \<Longrightarrow> revealed el (run_handler s h)"
proof (cases h)
  case HThemeToggle
  assume r: "revealed el s"
  show ?thesis
  proof (cases "el = Body")
    case True
    with r HThemeToggle show ?thesis
      by (simp add: revealed_def contains_toggle revealed_not_theme)
  next
    case False
    with r HThemeToggle show ?thesis
      by (simp add: revealed_def className_toggle_other)
  qed
qed (simp_all add: revealed_def submit_handler_fields reset_click_fields clear_ring_pulse_fields)

lemma fire_fields:
  "className (fire i s) = className s"
  "observer (fire i s) = observer s"
proof -
  have c: "className (run_callback cb p) = className p \<and> observer (run_callback cb p) = observer p"
    for cb p
    by (cases cb) (simp_all add: submit_done_fields)
  show "className (fire i s) = className s" "observer (fire i s) = observer s"
    by (simp_all add: fire_def c split: option.split timer.split)
qed

lemma reveal_entry_revealed: "revealed el s \<Longrightarrow> revealed el (reveal_entry s e)"
  by (simp add: reveal_entry_def revealed_def unobserve_fields add_class_def
      contains_classList_add theme_tokens)

lemma reveal_entry_observed: "observed el (reveal_entry s e) \<Longrightarrow> observed el s"
  by (auto simp: reveal_entry_def observed_def unobserve_def add_class_fields
      split: option.splits if_splits)

lemma reveal_entry_hit:
  "revealed el (reveal_entry s (el, True)) \<and> \<not> observed el (reveal_entry s (el, True))"
  by (auto simp: reveal_entry_def revealed_def observed_def unobserve_def add_class_def
      contains_classList_add theme_tokens split: option.splits)

lemma reveal_entry_miss:
  "fst e \<noteq> el \<or> \<not> snd e \<Longrightarrow>
     className (reveal_entry s e) el = className s el \<and>
     (observed el (reveal_entry s e) \<longleftrightarrow> observed el s)"
  by (auto simp: reveal_entry_def observed_def unobserve_def add_class_def split: option.splits)

lemma reveal_callback_snoc:
  "reveal_callback (es @ [e]) s = reveal_entry (reveal_callback es s) e"
  by (simp add: reveal_callback_def)

lemma reveal_callback_revealed: "revealed el s \<Longrightarrow> revealed el (reveal_callback es s)"
  by (induction es rule: rev_induct)
     (simp_all add: reveal_callback_snoc reveal_entry_revealed, simp add: reveal_callback_def)

lemma reveal_callback_observed: "observed el (reveal_callback es s) \<Longrightarrow> observed el s"
proof (induction es rule: rev_induct)
  case Nil
  then show ?case by (simp add: reveal_callback_def)
next
  case (snoc e es)
  then show ?case
    by (auto simp: reveal_callback_snoc dest: reveal_entry_observed)
qed

lemma reveal_callback_hit:
  "(el, True) \<in> set es \<Longrightarrow>
     revealed el (reveal_callback es s) \<and> \<not> observed el (reveal_callback es s)"
proof (induction es rule: rev_induct)
  case Nil
  then show ?case by simp
next
  case (snoc e es)
  show ?case
  proof (cases "e = (el, True)")
    case True
    then show ?thesis
      by (simp only: reveal_callback_snoc reveal_entry_hit simp_thms)
  next
    case False
    with snoc have "revealed el (reveal_callback es s)" "\<not> observed el (reveal_callback es s)"
      by auto
    then show ?thesis
      by (auto simp: reveal_callback_snoc reveal_entry_revealed dest: reveal_entry_observed)
  qed
qed

lemma reveal_callback_miss:
  "\<forall>e\<in>set es. fst e \<noteq> el \<or> \<not> snd e \<Longrightarrow>
     className (reveal_callback es s) el = className s el \<and>
     (observed el (reveal_callback es s) \<longleftrightarrow> observed el s)"
proof (induction es rule: rev_induct)
  case Nil
  then show ?case by (simp add: reveal_callback_def)
next
  case (snoc e es)
  then have "fst e \<noteq> el \<or> \<not> snd e" by simp
  from reveal_entry_miss [OF this, of "reveal_callback es s"] snoc show ?case
    by (simp add: reveal_callback_snoc)
qed

lemma step_revealed: "revealed el s \<Longrightarrow> revealed el (step s inp)"
proof (cases inp)
  case (Dispatch t e)
  assume r: "revealed el s"
  have "revealed el (foldl run_handler s hs)" for hs
    using r by (induction hs arbitrary: s) (simp_all add: run_handler_revealed)
  with Dispatch show ?thesis by (simp add: dispatch_def)
next
  case (Fire i)
  assume "revealed el s"
  with Fire show ?thesis by (simp add: revealed_def fire_fields)
next
  case (Intersect es)
  assume "revealed el s"
  with Intersect show ?thesis
    by (simp add: reveal_callback_revealed split: option.split)
qed

lemma step_observed: "observed el (step s inp) \<Longrightarrow> observed el s"
proof (cases inp)
  case (Dispatch t e)
  assume "observed el (step s inp)"
  with Dispatch show ?thesis
    by (simp add: dispatch_def observed_def foldl_run_handler_fields)
next
  case (Fire i)
  assume "observed el (step s inp)"
  with Fire show ?thesis by (simp add: observed_def fire_fields)
next
  case (Intersect es)
  assume "observed el (step s inp)"
  with Intersect show ?thesis
    by (cases "observer s") (auto dest: reveal_callback_observed)
qed

lemma run_revealed: "revealed el s \<Longrightarrow> revealed el (run ins s)"
  unfolding run_def by (induction ins arbitrary: s) (simp_all add: step_revealed)

lemma run_observed: "\<not> observed el s \<Longrightarrow> \<not> observed el (run ins s)"
  unfolding run_def
proof (induction ins arbitrary: s)
  case Nil
  then show ?case by simp
next
  case (Cons inp ins)
  from Cons.prems step_observed [of el s inp] have "\<not> observed el (step s inp)" by blast
  from Cons.IH [OF this] show ?case by simp
qed

lemma intersect_hit:
  assumes "observed el s" "(el, True) \<in> set es"
  shows "revealed el (step s (Intersect es)) \<and> \<not> observed el (step s (Intersect es))"
proof -
  from assms(1) obtain ob where ob: "observer s = Some ob" "el \<in> set (io_targets ob)"
    by (auto simp: observed_def split: option.splits)
  with assms(2) have "(el, True) \<in> set (filter (\<lambda>e. fst e \<in> set (io_targets ob)) es)"
    by simp
  from reveal_callback_hit [OF this] ob show ?thesis by simp
qed

lemma intersect_unobserved:
  assumes "\<not> observed el s"
  shows "className (step s (Intersect es)) el = className s el"
proof (cases "observer s")
  case None
  then show ?thesis by simp
next
  case (Some ob)
  with assms have "\<forall>e\<in>set (filter (\<lambda>e. fst e \<in> set (io_targets ob)) es). fst e \<noteq> el \<or> \<not> snd e"
    by (auto simp: observed_def)
  from reveal_callback_miss [OF this] Some show ?thesis by simp
qed

lemma intersect_miss:
  assumes "\<forall>e\<in>set es. fst e = el \<longrightarrow> \<not> snd e"
  shows "className (step s (Intersect es)) el = className s el \<and>
         (observed el (step s (Intersect es)) \<longleftrightarrow> observed el s)"
proof (cases "observer s")
  case None
  then show ?thesis by simp
next
  case (Some ob)
  from assms have "\<forall>e\<in>set (filter (\<lambda>e. fst e \<in> set (io_targets ob)) es). fst e \<noteq> el \<or> \<not> snd e"
    by auto
  from reveal_callback_miss [OF this] Some show ?thesis by simp
qed

lemma threshold_below: "fl64 (12 / 100) \<le> 12 / 100"
  by (simp only: fl64_constants) simp

lemma reveal_entry_threshold:
  "observer s = Some ob \<Longrightarrow>
     \<exists>ob'. observer (reveal_entry s e) = Some ob' \<and> io_threshold ob' = io_threshold ob"
  by (simp add: reveal_entry_def unobserve_def add_class_fields)

lemma reveal_callback_threshold:
  "observer s = Some ob \<Longrightarrow>
     \<exists>ob'. observer (reveal_callback es s) = Some ob' \<and> io_threshold ob' = io_threshold ob"
proof (induction es rule: rev_induct)
  case Nil
  then show ?case by (simp add: reveal_callback_def)
next
  case (snoc e es)
  then obtain ob1 where 1: "observer (reveal_callback es s) = Some ob1"
    "io_threshold ob1 = io_threshold ob" by blast
  from reveal_entry_threshold [OF 1(1), of e] 1(2) show ?case
    by (auto simp: reveal_callback_snoc)
qed

lemma step_threshold:
  assumes "observer s = Some ob"
  shows "\<exists>ob'. observer (step s inp) = Some ob' \<and> io_threshold ob' = io_threshold ob"
proof (cases inp)
  case (Dispatch t e)
  with assms show ?thesis by (simp add: dispatch_def foldl_run_handler_fields)
next
  case (Fire i)
  with assms show ?thesis by (simp add: fire_fields)
next
  case (Intersect es)
  with assms reveal_callback_threshold [OF assms] show ?thesis by simp
qed

lemma run_threshold:
  "observer s = Some ob \<Longrightarrow>
     \<exists>ob'. observer (run ins s) = Some ob' \<and> io_threshold ob' = io_threshold ob"
  unfolding run_def
proof (induction ins arbitrary: s ob)
  case Nil
  then show ?case by simp
next
  case (Cons inp ins)
  from step_threshold [OF Cons.prems, of inp] obtain ob1
    where 1: "observer (step s inp) = Some ob1" "io_threshold ob1 = io_threshold ob" by blast
  from Cons.IH [OF 1(1)] 1(2) show ?case by simp
qed

lemma startup_threshold:
  assumes "\<not> prefersReduced v"
  shows "\<exists>ob. observer (run ins (startup v s)) = Some ob \<and> io_threshold ob = fl64 (12 / 100)"
proof -
  from assms have "observer (startup v s) =
      Some \<lparr>io_threshold = reveal_threshold, io_targets = foldl set_append [] (reveal_els v)\<rparr>"
    by (simp add: startup_observer)
  from run_threshold [OF this, of ins] show ?thesis
    by (simp only: io_observer.simps reveal_threshold_def)
qed

lemma fraction_below:
  assumes "observer q = Some ob" "io_threshold ob = fl64 (12 / 100)"
    and "\<forall>r. (el, r) \<in> set reports \<longrightarrow> r < fl64 (12 / 100)"
  shows "className (step q (Intersect (browser_entries q reports))) el = className q el \<and>
         (observed el (step q (Intersect (browser_entries q reports))) \<longleftrightarrow> observed el q)"
proof -
  from assms have "\<forall>e\<in>set (browser_entries q reports). fst e = el \<longrightarrow> \<not> snd e"
    by (auto simp: browser_entries_def)
  then show ?thesis by (rule intersect_miss)
qed

lemma fraction_reached:
  assumes "observer q = Some ob" "io_threshold ob = fl64 (12 / 100)" "el \<in> set (io_targets ob)"
    and "(el, r) \<in> set reports" "12 / 100 \<le> r"
  shows "revealed el (step q (Intersect (browser_entries q reports))) \<and>
         \<not> observed el (step q (Intersect (browser_entries q reports)))"
proof -
  from assms(5) threshold_below have "fl64 (12 / 100) \<le> r" by (rule order_trans [rotated])
  with assms(1,2,4) have "(el, True) \<in> set (browser_entries q reports)"
    by (force simp: browser_entries_def)
  moreover from assms(1,3) have "observed el q" by (simp add: observed_def)
  ultimately show ?thesis by (intro intersect_hit)
qed

lemma startup_beyond:
  assumes "\<not> prefersReduced v" "el \<in> set (reveal_els v)"
    and "is_double (rect_top v el)" "0 \<le> innerHeight v"
    and "of_int (innerHeight v) * 9 / 10 \<le> rect_top v el"
  shows "className (startup v s) el = className (init_theme s) el \<and>
         (revealed el (startup v s) \<longleftrightarrow> revealed el (init_theme s)) \<and>
         observed el (startup v s)"
proof -
  from threshold_exact [OF assms(3-5)]
  have c: "className (startup v s) el = className (init_theme s) el"
    using assms(1) by (simp add: startup_className fold_visible_skip)
  then have "revealed el (startup v s) \<longleftrightarrow> revealed el (init_theme s)"
    by (simp add: revealed_def)
  moreover from assms(1,2) have "observed el (startup v s)"
    by (simp add: observed_def startup_observer set_foldl_set_append)
  ultimately show ?thesis using c by blast
qed

text \<open>
  C4, as stated, fails: under the reduced-motion preference the script marks every
  reveal candidate revealed at startup, also one whose top lies beyond nine tenths of
  the viewport height.
\<close>

theorem reveal_once_counterexample:
  "Node 1 \<in> set (reveal_els reduced_env) \<and>
   of_int (innerHeight reduced_env) * 9 / 10 \<le> rect_top reduced_env (Node 1) \<and>
   \<not> revealed (Node 1) fresh_page \<and>
   revealed (Node 1) (startup reduced_env fresh_page)"
  by code_simp

text \<open>
  C4, amended. When motion is allowed: a reveal candidate whose top is at or beyond
  nine tenths of the viewport height is not marked revealed by the script (its classes
  are those the theme initialisation left) and leaves the script observed, by an
  observer whose threshold is the binary64 value of 0.12 and stays so. While the
  reported visible fraction of the element is below that threshold, a report changes
  neither its classes nor whether it is observed. The first report in which the visible
  fraction of an observed element has reached 12% marks it revealed and removes it from
  the targets. Whatever happens afterwards, a revealed element stays revealed and an
  element that is not observed stays so, and a later report of the observer does not
  touch its classes: the step from not revealed to revealed is taken at most once.
\<close>

theorem reveal_once:
  "(\<not> prefersReduced v \<and> el \<in> set (reveal_els v) \<and>
    is_double (rect_top v el) \<and> 0 \<le> innerHeight v \<and>
    of_int (innerHeight v) * 9 / 10 \<le> rect_top v el \<longrightarrow>
      className (startup v s) el = className (init_theme s) el \<and>
      (revealed el (startup v s) \<longleftrightarrow> revealed el (init_theme s)) \<and>
      observed el (startup v s)) \<and>
   (\<not> prefersReduced v \<longrightarrow>
      (\<exists>ob. observer (run before (startup v s)) = Some ob \<and> io_threshold ob = fl64 (12 / 100))) \<and>
   (observer q = Some ob \<and> io_threshold ob = fl64 (12 / 100) \<and>
    (\<forall>r. (el, r) \<in> set reports \<longrightarrow> r < fl64 (12 / 100)) \<longrightarrow>
      className (step q (Intersect (browser_entries q reports))) el = className q el \<and>
      (observed el (step q (Intersect (browser_entries q reports))) \<longleftrightarrow> observed el q)) \<and>
   (observer q = Some ob \<and> io_threshold ob = fl64 (12 / 100) \<and> el \<in> set (io_targets ob) \<and>
    (el, r) \<in> set reports \<and> 12 / 100 \<le> r \<longrightarrow>
      revealed el (step q (Intersect (browser_entries q reports))) \<and>
      \<not> observed el (step q (Intersect (browser_entries q reports)))) \<and>
   ((\<forall>e\<in>set entries. fst e = el \<longrightarrow> \<not> snd e) \<longrightarrow>
      className (step q (Intersect entries)) el = className q el \<and>
      (observed el (step q (Intersect entries)) \<longleftrightarrow> observed el q)) \<and>
   (observed el q \<and> (el, True) \<in> set entries \<longrightarrow>
      revealed el (step q (Intersect entries)) \<and> \<not> observed el (step q (Intersect entries))) \<and>
   (revealed el q \<longrightarrow> revealed el (run ins q)) \<and>
   (\<not> observed el q \<longrightarrow>
      \<not> observed el (run ins q) \<and> className (step q (Intersect entries)) el = className q el)"
  using startup_beyond [of v el s] startup_threshold [of v before s]
    fraction_below [of q ob el reports] fraction_reached [of q ob el r reports]
    intersect_miss [of entries el q] intersect_hit [of el q entries]
    run_revealed [of el q ins] run_observed [of el q ins] intersect_unobserved [of el q entries]
  by blast

theorem reveal_once_witness:
  "\<not> revealed (Node 1) (startup sample_env fresh_page) \<and>
   observed (Node 1) (startup sample_env fresh_page) \<and>
   \<not> revealed (Node 1)
      (step (startup sample_env fresh_page)
         (Intersect (browser_entries (startup sample_env fresh_page) [(Node 1, 1 / 20)]))) \<and>
   revealed (Node 1)
      (step (startup sample_env fresh_page)
         (Intersect (browser_entries (startup sample_env fresh_page) [(Node 1, 1 / 2)]))) \<and>
   \<not> observed (Node 1)
      (step (startup sample_env fresh_page)
         (Intersect (browser_entries (startup sample_env fresh_page) [(Node 1, 1 / 2)]))) \<and>
   revealed (Node 1)
     (run [Intersect [(Node 1, False)], Intersect [(Node 1, True)]]
        (step (startup sample_env fresh_page)
           (Intersect (browser_entries (startup sample_env fresh_page) [(Node 1, 1 / 2)]))))"
proof -
  define p where "p = startup sample_env fresh_page"
  have h: "\<not> prefersReduced sample_env \<and> Node 1 \<in> set (reveal_els sample_env) \<and>
    is_double (rect_top sample_env (Node 1)) \<and> 0 \<le> innerHeight sample_env \<and>
    of_int (innerHeight sample_env) * 9 / 10 \<le> rect_top sample_env (Node 1)"
    by code_simp
  have i: "\<not> revealed (Node 1) (init_theme fresh_page)"
    by code_simp
  have lo: "\<forall>r. (Node 1, r) \<in> set [(Node 1, 1 / 20 :: rat)] \<longrightarrow> r < fl64 (12 / 100)"
    by (simp only: fl64_constants) auto
  have hi: "(Node 1, 1 / 2 :: rat) \<in> set [(Node 1, 1 / 2)] \<and> (12 / 100 :: rat) \<le> 1 / 2"
    by simp
  note t = reveal_once [of sample_env "Node 1" fresh_page "[]"]
  from t h i have 1: "\<not> revealed (Node 1) p" "observed (Node 1) p"
    unfolding p_def by blast+
  have r0: "run [] (startup sample_env fresh_page) = p"
    by (simp add: run_def p_def)
  from t h have "\<exists>ob. observer (run [] (startup sample_env fresh_page)) = Some ob \<and>
      io_threshold ob = fl64 (12 / 100)"
    by blast
  then obtain ob where ob: "observer p = Some ob" "io_threshold ob = fl64 (12 / 100)"
    unfolding r0 by blast
  with 1(2) have tg: "Node 1 \<in> set (io_targets ob)" by (simp add: observed_def)
  from reveal_once [of sample_env "Node 1" fresh_page "[]" p ob "[(Node 1, 1 / 20)]"] ob lo
  have "className (step p (Intersect (browser_entries p [(Node 1, 1 / 20)]))) (Node 1) =
      className p (Node 1)"
    by blast
  with 1(1) have 2: "\<not> revealed (Node 1) (step p (Intersect (browser_entries p [(Node 1, 1 / 20)])))"
    by (simp add: revealed_def)
  from reveal_once [of sample_env "Node 1" fresh_page "[]" p ob "[(Node 1, 1 / 2)]" "1 / 2"] ob tg hi
  have 3: "revealed (Node 1) (step p (Intersect (browser_entries p [(Node 1, 1 / 2)])))"
    "\<not> observed (Node 1) (step p (Intersect (browser_entries p [(Node 1, 1 / 2)])))"
    by blast+
  from reveal_once [of sample_env "Node 1" fresh_page "[]"
      "step p (Intersect (browser_entries p [(Node 1, 1 / 2)]))" _ _ _ _
      "[Intersect [(Node 1, False)], Intersect [(Node 1, True)]]"] 3(1)
  have 4: "revealed (Node 1)
     (run [Intersect [(Node 1, False)], Intersect [(Node 1, True)]]
        (step p (Intersect (browser_entries p [(Node 1, 1 / 2)]))))"
    by blast
  from 1 2 3 4 show ?thesis unfolding p_def by blast
qed


end
